theory Spec2Isabelle
  imports Main "HOL-Library.Sublist"
begin

section \<open>The download manager queue\<close>

text \<open>
  The module keeps two lists in a persistent key/value store (\<^verbatim>\<open>queue\<close> and
  \<^verbatim>\<open>finished\<close>) and one module-level flag \<^verbatim>\<open>queueState\<close>. Its functions are
  \<^verbatim>\<open>getFirstQueueElement\<close>, \<^verbatim>\<open>addToFinished\<close>, \<^verbatim>\<open>initQueue\<close>, \<^verbatim>\<open>addToQueue\<close>,
  \<^verbatim>\<open>removeFromQueue\<close> and \<^verbatim>\<open>getQueueInformation\<close>.

  The embedding passes the state explicitly. Everything the module does to the outside
  (frontend messages, log lines, store writes, calls of runner operations) is appended
  to a trace, so that "no notification", "no store write" and "no runner call" are
  statements about the trace.
\<close>

subsection \<open>Data\<close>

datatype DMStatus = Done | Error | Abort

datatype DownloadManagerState = Idle | Running

text \<open>
  The fields of \<^verbatim>\<open>InstallParams\<close> and \<^verbatim>\<open>DMQueueElement\<close> that the module reads or
  writes. \<^verbatim>\<open>runner\<close> and \<^verbatim>\<open>type\<close> stay strings, as the code compares them with string
  literals; \<^verbatim>\<open>title\<close> is \<^verbatim>\<open>params.gameInfo.title\<close>. A \<^verbatim>\<open>status\<close> of \<open>None\<close> is a
  null or undefined status.
\<close>

record InstallParams =
  appName :: string
  runner :: string
  path :: string
  platformToInstall :: string
  size_p :: "string option"
  title :: string

record DMQueueElement =
  params :: InstallParams
  type :: string
  startTime :: int
  endTime :: int
  status :: "DMStatus option"

text \<open>What \<^verbatim>\<open>getInstallInfo\<close> resolves to: \<^verbatim>\<open>installInfo?.manifest?.download_size\<close>.\<close>

record Manifest =
  download_size :: "int option"

record InstallInfo =
  manifest :: "Manifest option"

text \<open>An exception thrown by (or a rejected promise of) an external call.\<close>

datatype fault = Fault string

datatype frontend_message =
    gameStatusUpdate string "string option" "string option" string
  | changedDMQueueInformation "DMQueueElement list"

datatype runner_call =
    GetInstallInfo string string string
  | InstallQueueElement InstallParams
  | UpdateQueueElement InstallParams
  | DownloadGame string

datatype event =
    Frontend frontend_message
  | LogInfo "string list"
  | LogError string
  | Call runner_call
  | StoreSet string
  | StoreDelete string

text \<open>
  The state: the two keys of the store (\<open>None\<close> when the key is absent, which is what
  \<^verbatim>\<open>downloadManager.has\<close> tests), the module variable \<^verbatim>\<open>queueState\<close>, the trace, and
  the number of \<^verbatim>\<open>await\<close>s passed so far.
\<close>

record dm_state =
  store_queue :: "DMQueueElement list option"
  store_finished :: "DMQueueElement list option"
  queueState :: DownloadManagerState
  trace :: "event list"
  tick :: nat

text \<open>
  Calls of \<^verbatim>\<open>addToQueue\<close> and \<^verbatim>\<open>removeFromQueue\<close> made by other tasks of the event
  loop while \<^verbatim>\<open>initQueue\<close> is suspended in an \<^verbatim>\<open>await\<close>.
\<close>

datatype request = Enqueue DMQueueElement | Remove string

text \<open>
  The collaborators that are not part of the module. Each awaited call is answered by
  the number of the \<^verbatim>\<open>await\<close> and its arguments: \<open>Inl\<close> when the call throws, \<open>Inr\<close>
  with the value it resolves to otherwise. \<open>arrivals\<close> are the requests that reach the
  module during that \<^verbatim>\<open>await\<close>; \<open>now\<close> is \<^verbatim>\<open>Date.now()\<close>; \<open>getFileSize\<close> is the
  formatting function the module imports from \<^verbatim>\<open>../utils\<close>.
\<close>

record world =
  getInstallInfo :: "nat \<Rightarrow> string \<Rightarrow> string \<Rightarrow> string \<Rightarrow> fault + InstallInfo option"
  installQueueElement :: "nat \<Rightarrow> InstallParams \<Rightarrow> fault + DMStatus option"
  updateQueueElement :: "nat \<Rightarrow> InstallParams \<Rightarrow> fault + DMStatus option"
  downloadGame :: "nat \<Rightarrow> string \<Rightarrow> fault + DMStatus option"
  getFileSize :: "int \<Rightarrow> string"
  now :: "nat \<Rightarrow> int"
  arrivals :: "nat \<Rightarrow> request list"

datatype 'a step = Ok 'a | Raise fault dm_state | Reenter dm_state

datatype outcome =
    Completed dm_state
  | Faulted fault dm_state
  | Reentered dm_state
  | OutOfFuel dm_state

subsection \<open>Store access and list helpers\<close>

definition initial_state ::
  "DMQueueElement list option \<Rightarrow> DMQueueElement list option \<Rightarrow> dm_state" where
  "initial_state q f =
     \<lparr>store_queue = q, store_finished = f, queueState = Idle, trace = [], tick = 0\<rparr>"

definition get_queue :: "dm_state \<Rightarrow> DMQueueElement list" where
  "get_queue s = (case store_queue s of None \<Rightarrow> [] | Some q \<Rightarrow> q)"

definition get_finished :: "dm_state \<Rightarrow> DMQueueElement list" where
  "get_finished s = (case store_finished s of None \<Rightarrow> [] | Some q \<Rightarrow> q)"

definition emit :: "event list \<Rightarrow> dm_state \<Rightarrow> dm_state" where
  "emit es s = s\<lparr>trace := trace s @ es\<rparr>"

text \<open>\<^verbatim>\<open>Array.prototype.findIndex\<close>; \<open>None\<close> is the result -1.\<close>

fun findIndex :: "('a \<Rightarrow> bool) \<Rightarrow> 'a list \<Rightarrow> nat option" where
  "findIndex P [] = None"
| "findIndex P (x # xs) = (if P x then Some 0 else map_option Suc (findIndex P xs))"

text \<open>\<^verbatim>\<open>elements.splice(index, 1)\<close>.\<close>

definition splice1 :: "nat \<Rightarrow> 'a list \<Rightarrow> 'a list" where
  "splice1 i xs = take i xs @ drop (Suc i) xs"

text \<open>\<^verbatim>\<open>queuedElements[0] = element\<close>; on an empty array the assignment extends it.\<close>

definition set_first :: "'a \<Rightarrow> 'a list \<Rightarrow> 'a list" where
  "set_first x xs = (case xs of [] \<Rightarrow> [x] | _ # rest \<Rightarrow> x # rest)"

definition name_of :: "DMQueueElement \<Rightarrow> string" where
  "name_of el = appName (params el)"

definition same_app :: "DMQueueElement \<Rightarrow> DMQueueElement \<Rightarrow> bool" where
  "same_app element el = (appName (params el) = appName (params element))"

subsection \<open>Private functions\<close>

definition getFirstQueueElement :: "dm_state \<Rightarrow> DMQueueElement option" where
  "getFirstQueueElement s = (case get_queue s of [] \<Rightarrow> None | e # _ \<Rightarrow> Some e)"

text \<open>The list that \<^verbatim>\<open>addToFinished\<close> writes back under \<^verbatim>\<open>finished\<close>.\<close>

definition addToFinished_elements ::
  "DMQueueElement \<Rightarrow> DMStatus option \<Rightarrow> DMQueueElement list \<Rightarrow> DMQueueElement list" where
  "addToFinished_elements element st elements =
     (case findIndex (same_app element) elements of
        Some elementIndex \<Rightarrow>
          elements[elementIndex :=
            element\<lparr>status := Some (case st of None \<Rightarrow> Abort | Some x \<Rightarrow> x)\<rparr>]
      | None \<Rightarrow> elements @ [element\<lparr>status := st\<rparr>])"

definition addToFinished :: "DMQueueElement \<Rightarrow> DMStatus option \<Rightarrow> dm_state \<Rightarrow> dm_state" where
  "addToFinished element st s =
     emit [StoreSet ''finished'',
           LogInfo [appName (params element), ''added to download manager finished.'']]
       (s\<lparr>store_finished := Some (addToFinished_elements element st (get_finished s))\<rparr>)"

subsection \<open>Public functions\<close>

definition removeFromQueue :: "string \<Rightarrow> dm_state \<Rightarrow> dm_state" where
  "removeFromQueue a s =
     (if a \<noteq> [] \<and> store_queue s \<noteq> None then
        (let elements = get_queue s;
             s1 = (case findIndex (\<lambda>queueElement. appName (params queueElement) = a) elements of
                     Some index \<Rightarrow>
                       emit [StoreDelete ''queue'', StoreSet ''queue'']
                         (s\<lparr>store_queue := Some (splice1 index elements)\<rparr>)
                   | None \<Rightarrow> s)
         in emit [Frontend (gameStatusUpdate a None None ''done''),
                  LogInfo [a, ''removed from download manager.''],
                  Frontend (changedDMQueueInformation (get_queue s1))] s1)
      else s)"

text \<open>The list that \<^verbatim>\<open>addToQueue\<close> writes back under \<^verbatim>\<open>queue\<close>.\<close>

definition addToQueue_elements ::
  "DMQueueElement \<Rightarrow> DMQueueElement list \<Rightarrow> DMQueueElement list" where
  "addToQueue_elements element elements =
     (case findIndex (same_app element) elements of
        Some elementIndex \<Rightarrow> elements[elementIndex := element]
      | None \<Rightarrow> elements @ [element])"

text \<open>
  \<^verbatim>\<open>addToQueue\<close> up to its last statement: the guard, the \<^verbatim>\<open>queued\<close> notification, the
  store write, the log line and the queue notification. \<open>None\<close> is a null or undefined
  argument.
\<close>

definition addToQueue_sync :: "DMQueueElement option \<Rightarrow> dm_state \<Rightarrow> dm_state" where
  "addToQueue_sync element s =
     (case element of
        None \<Rightarrow> emit [LogError ''Can not add undefined element to queue!''] s
      | Some e \<Rightarrow>
          (let s1 = emit [Frontend (gameStatusUpdate (appName (params e))
                            (Some (runner (params e))) (Some (path (params e))) ''queued'')] s;
               elements = addToQueue_elements e (get_queue s1)
           in emit [StoreSet ''queue'',
                    LogInfo [title (params e), '' was added to the download queue.''],
                    Frontend (changedDMQueueInformation elements)]
                (s1\<lparr>store_queue := Some elements\<rparr>)))"

text \<open>
  Requests served while the loop is suspended. \<^verbatim>\<open>addToQueue\<close> ends with
  \<^verbatim>\<open>if (queueState === 'idle') initQueue()\<close>: a request that finds the manager idle
  would start another loop, interleaved with the suspended one, which this embedding
  does not follow; \<open>None\<close> reports it.
\<close>

fun serve :: "request list \<Rightarrow> dm_state \<Rightarrow> dm_state option" where
  "serve [] s = Some s"
| "serve (Enqueue e # rs) s =
     (let s1 = addToQueue_sync (Some e) s
      in if queueState s1 = Idle then None else serve rs s1)"
| "serve (Remove a # rs) s = serve rs (removeFromQueue a s)"

text \<open>One \<^verbatim>\<open>await\<close>: the requests of this await are served, the counter advances.\<close>

definition suspend :: "world \<Rightarrow> dm_state \<Rightarrow> dm_state option" where
  "suspend w s = serve (arrivals w (tick s)) (s\<lparr>tick := Suc (tick s)\<rparr>)"

definition await :: "world \<Rightarrow> (fault + 'a) \<Rightarrow> dm_state \<Rightarrow> ('a \<times> dm_state) step" where
  "await w reply s =
     (case suspend w s of
        None \<Rightarrow> Reenter s
      | Some s1 \<Rightarrow> (case reply of Inl f \<Rightarrow> Raise f s1 | Inr v \<Rightarrow> Ok (v, s1)))"

definition manifest_runner :: "string \<Rightarrow> bool" where
  "manifest_runner r = (r = ''gog'' \<or> r = ''legendary'')"

text \<open>
  \<^verbatim>\<open>installInfo?.manifest?.download_size ? getFileSize(...) : '?? MB'\<close>: a missing
  result, a missing manifest, a missing size and the size 0 are all falsy.
\<close>

definition size_text :: "world \<Rightarrow> InstallInfo option \<Rightarrow> string" where
  "size_text w installInfo =
     (case installInfo of
        None \<Rightarrow> ''?? MB''
      | Some i \<Rightarrow>
          (case manifest i of
             None \<Rightarrow> ''?? MB''
           | Some m \<Rightarrow>
               (case download_size m of
                  None \<Rightarrow> ''?? MB''
                | Some n \<Rightarrow> if n \<noteq> 0 then getFileSize w n else ''?? MB'')))"

definition with_size :: "string \<Rightarrow> DMQueueElement \<Rightarrow> DMQueueElement" where
  "with_size sz element = element\<lparr>params := (params element)\<lparr>size_p := Some sz\<rparr>\<rparr>"

text \<open>
  The loop body from the read of the queue to the assignment of \<^verbatim>\<open>params.size\<close>. The
  result carries the local variables \<^verbatim>\<open>element\<close> and \<^verbatim>\<open>queuedElements\<close>.
\<close>

definition resolveSize ::
  "world \<Rightarrow> DMQueueElement \<Rightarrow> dm_state \<Rightarrow> ((DMQueueElement \<times> DMQueueElement list) \<times> dm_state) step" where
  "resolveSize w element s =
     (let queuedElements = get_queue s;
          s1 = emit [Frontend (changedDMQueueInformation queuedElements)] s
      in if manifest_runner (runner (params element)) then
           (case await w (getInstallInfo w (tick s1) (appName (params element))
                            (runner (params element)) (platformToInstall (params element)))
                   (emit [Call (GetInstallInfo (appName (params element))
                            (runner (params element)) (platformToInstall (params element)))] s1) of
              Ok (installInfo, s2) \<Rightarrow>
                Ok ((with_size (size_text w installInfo) element, queuedElements), s2)
            | Raise f s2 \<Rightarrow> Raise f s2
            | Reenter s2 \<Rightarrow> Reenter s2)
         else Ok ((with_size ''?? MB'' element, queuedElements), s1))"

text \<open>
  \<^verbatim>\<open>element.startTime = Date.now(); queuedElements[0] = element;
  downloadManager.set('queue', queuedElements)\<close>.
\<close>

definition persistHead ::
  "world \<Rightarrow> DMQueueElement \<Rightarrow> DMQueueElement list \<Rightarrow> dm_state \<Rightarrow> DMQueueElement \<times> dm_state" where
  "persistHead w element queuedElements s =
     (let element1 = element\<lparr>startTime := now w (tick s)\<rparr>
      in (element1,
          emit [StoreSet ''queue'']
            (s\<lparr>store_queue := Some (set_first element1 queuedElements)\<rparr>)))"

text \<open>The conditional expression that selects the runner operation.\<close>

definition dispatch :: "world \<Rightarrow> DMQueueElement \<Rightarrow> dm_state \<Rightarrow> (DMStatus option \<times> dm_state) step" where
  "dispatch w element s =
     (if manifest_runner (runner (params element)) \<and> type element = ''install'' then
        await w (installQueueElement w (tick s) (params element))
          (emit [Call (InstallQueueElement (params element))] s)
      else if manifest_runner (runner (params element)) \<and> type element = ''update'' then
        await w (updateQueueElement w (tick s) (params element))
          (emit [Call (UpdateQueueElement (params element))] s)
      else if runner (params element) = ''hyperplay'' then
        await w (downloadGame w (tick s) (appName (params element)))
          (emit [Call (DownloadGame (appName (params element)))] s)
      else Ok (Some Error, s))"

text \<open>
  \<^verbatim>\<open>element.endTime = Date.now(); addToFinished(element, status);
  removeFromQueue(element.params.appName)\<close>.
\<close>

definition retire :: "world \<Rightarrow> DMQueueElement \<Rightarrow> DMStatus option \<Rightarrow> dm_state \<Rightarrow> dm_state" where
  "retire w element st s =
     (let element1 = element\<lparr>endTime := now w (tick s)\<rparr>
      in removeFromQueue (appName (params element1)) (addToFinished element1 st s))"

text \<open>One pass through the body of the \<^verbatim>\<open>while\<close> loop.\<close>

definition iteration :: "world \<Rightarrow> DMQueueElement \<Rightarrow> dm_state \<Rightarrow> dm_state step" where
  "iteration w element s =
     (case resolveSize w element s of
        Raise f s1 \<Rightarrow> Raise f s1
      | Reenter s1 \<Rightarrow> Reenter s1
      | Ok ((element1, queuedElements), s1) \<Rightarrow>
          (case persistHead w element1 queuedElements s1 of
             (element2, s2) \<Rightarrow>
               (case dispatch w element2 s2 of
                  Raise f s3 \<Rightarrow> Raise f s3
                | Reenter s3 \<Rightarrow> Reenter s3
                | Ok (st, s3) \<Rightarrow> Ok (retire w element2 st s3))))"

text \<open>
  The \<^verbatim>\<open>while (element)\<close> loop followed by \<^verbatim>\<open>queueState = 'idle'\<close>. The loop has no
  bound of its own, so the embedding counts iterations down from a given number and
  reports \<open>OutOfFuel\<close> when they are used up. A fault of an awaited call is not caught
  anywhere in \<^verbatim>\<open>initQueue\<close>: it ends the function at that point.
\<close>

fun loop :: "nat \<Rightarrow> world \<Rightarrow> DMQueueElement option \<Rightarrow> dm_state \<Rightarrow> outcome" where
  "loop n w None s = Completed (s\<lparr>queueState := Idle\<rparr>)"
| "loop 0 w (Some element) s = OutOfFuel s"
| "loop (Suc n) w (Some element) s =
     (case iteration w element s of
        Ok s1 \<Rightarrow> loop n w (getFirstQueueElement s1) s1
      | Raise f s1 \<Rightarrow> Faulted f s1
      | Reenter s1 \<Rightarrow> Reentered s1)"

definition initQueue :: "nat \<Rightarrow> world \<Rightarrow> dm_state \<Rightarrow> outcome" where
  "initQueue n w s =
     (let element = getFirstQueueElement s
      in loop n w element
           (s\<lparr>queueState := (if element \<noteq> None then Running else Idle)\<rparr>))"

text \<open>
  \<^verbatim>\<open>addToQueue\<close>. The call of \<^verbatim>\<open>initQueue\<close> is not awaited; the outcome of the loop it
  starts is reported as the outcome of the call.
\<close>

definition addToQueue :: "nat \<Rightarrow> world \<Rightarrow> DMQueueElement option \<Rightarrow> dm_state \<Rightarrow> outcome" where
  "addToQueue n w element s =
     (case element of
        None \<Rightarrow> Completed (addToQueue_sync None s)
      | Some e \<Rightarrow>
          (let s1 = addToQueue_sync (Some e) s
           in if queueState s1 = Idle then initQueue n w s1 else Completed s1))"

definition getQueueInformation :: "dm_state \<Rightarrow> DMQueueElement list \<times> DMQueueElement list" where
  "getQueueInformation s = (get_queue s, get_finished s)"

subsection \<open>Observations\<close>

text \<open>The frontend messages of a trace, in order.\<close>

fun notification :: "event \<Rightarrow> frontend_message list" where
  "notification (Frontend m) = [m]"
| "notification _ = []"

definition notifications :: "event list \<Rightarrow> frontend_message list" where
  "notifications tr = concat (map notification tr)"

text \<open>The calls of the install, update and download operations in a trace.\<close>

fun is_operation :: "event \<Rightarrow> bool" where
  "is_operation (Call (InstallQueueElement p)) = True"
| "is_operation (Call (UpdateQueueElement p)) = True"
| "is_operation (Call (DownloadGame a)) = True"
| "is_operation _ = False"

definition operations :: "event list \<Rightarrow> event list" where
  "operations tr = filter is_operation tr"

text \<open>
  The appNames moved to the finished history, in order: \<^verbatim>\<open>addToFinished\<close> logs each.
\<close>

fun retired_name :: "event \<Rightarrow> string list" where
  "retired_name (LogInfo [a, msg]) =
     (if msg = ''added to download manager finished.'' then [a] else [])"
| "retired_name _ = []"

definition retired :: "event list \<Rightarrow> string list" where
  "retired tr = concat (map retired_name tr)"

definition names :: "DMQueueElement list \<Rightarrow> string list" where
  "names elements = map name_of elements"

definition queue_distinct :: "dm_state \<Rightarrow> bool" where
  "queue_distinct s = distinct (names (get_queue s))"

definition finished_distinct :: "dm_state \<Rightarrow> bool" where
  "finished_distinct s = distinct (names (get_finished s))"

fun step_state :: "dm_state step \<Rightarrow> dm_state" where
  "step_state (Ok s) = s"
| "step_state (Raise f s) = s"
| "step_state (Reenter s) = s"

fun result_state :: "('a \<times> dm_state) step \<Rightarrow> dm_state" where
  "result_state (Ok (v, s)) = s"
| "result_state (Raise f s) = s"
| "result_state (Reenter s) = s"

fun fault_of :: "outcome \<Rightarrow> fault option" where
  "fault_of (Faulted f s) = Some f"
| "fault_of _ = None"

fun state_of :: "outcome \<Rightarrow> dm_state" where
  "state_of (Completed s) = s"
| "state_of (Faulted f s) = s"
| "state_of (Reentered s) = s"
| "state_of (OutOfFuel s) = s"

text \<open>
  What every part of the loop body before \<^verbatim>\<open>addToFinished\<close> leaves as it is: the
  finished history, the manager state and the list of retired appNames.
\<close>

definition preserved :: "dm_state \<Rightarrow> dm_state \<Rightarrow> bool" where
  "preserved s s1 =
     (store_finished s1 = store_finished s \<and> queueState s1 = queueState s \<and>
      retired (trace s1) = retired (trace s) \<and> tick s \<le> tick s1)"

text \<open>
  The tasks for which dispatch awaits a runner operation, and the number of that await
  in an iteration that starts in state \<open>s\<close> (the size lookup, where there is one, is
  the await before it).
\<close>

definition awaited :: "DMQueueElement \<Rightarrow> bool" where
  "awaited el =
     ((manifest_runner (runner (params el)) \<and> (type el = ''install'' \<or> type el = ''update''))
      \<or> runner (params el) = ''hyperplay'')"

definition op_tick :: "DMQueueElement \<Rightarrow> dm_state \<Rightarrow> nat" where
  "op_tick el s = (if manifest_runner (runner (params el)) then Suc (tick s) else tick s)"

text \<open>Sequences of calls of the exported functions.\<close>

datatype operation =
    AddToQueue "DMQueueElement option"
  | RemoveFromQueue string
  | InitQueue

fun perform :: "nat \<Rightarrow> world \<Rightarrow> operation \<Rightarrow> dm_state \<Rightarrow> dm_state" where
  "perform n w (AddToQueue e) s = state_of (addToQueue n w e s)"
| "perform n w (RemoveFromQueue a) s = removeFromQueue a s"
| "perform n w InitQueue s = state_of (initQueue n w s)"

fun perform_all :: "nat \<Rightarrow> world \<Rightarrow> operation list \<Rightarrow> dm_state \<Rightarrow> dm_state" where
  "perform_all n w [] s = s"
| "perform_all n w (x # xs) s = perform_all n w xs (perform n w x s)"

text \<open>A world in which no awaited call throws.\<close>

definition no_raise :: "world \<Rightarrow> bool" where
  "no_raise w =
     ((\<forall>t a r p. \<exists>v. getInstallInfo w t a r p = Inr v) \<and>
      (\<forall>t p. \<exists>v. installQueueElement w t p = Inr v) \<and>
      (\<forall>t p. \<exists>v. updateQueueElement w t p = Inr v) \<and>
      (\<forall>t a. \<exists>v. downloadGame w t a = Inr v))"

subsection \<open>Example tasks, states and worlds\<close>

definition task :: "string \<Rightarrow> string \<Rightarrow> string \<Rightarrow> DMQueueElement" where
  "task a r ty =
     \<lparr>params = \<lparr>appName = a, runner = r, path = ''/games'', platformToInstall = ''linux'',
                size_p = None, title = a\<rparr>,
      type = ty, startTime = 0, endTime = 0, status = None\<rparr>"

text \<open>
  A world whose size lookup always answers \<open>info\<close>, whose three operations always
  answer \<open>reply\<close>, and whose requests are \<open>arr\<close>.
\<close>

definition simple_world ::
  "(fault + InstallInfo option) \<Rightarrow> (fault + DMStatus option) \<Rightarrow> (nat \<Rightarrow> request list) \<Rightarrow> world" where
  "simple_world info reply arr =
     \<lparr>getInstallInfo = (\<lambda>t a r p. info),
      installQueueElement = (\<lambda>t p. reply),
      updateQueueElement = (\<lambda>t p. reply),
      downloadGame = (\<lambda>t a. reply),
      getFileSize = (\<lambda>n. ''1 GB''),
      now = (\<lambda>t. int t),
      arrivals = arr\<rparr>"

definition state_with ::
  "DMQueueElement list option \<Rightarrow> DMQueueElement list option \<Rightarrow> DownloadManagerState \<Rightarrow> dm_state" where
  "state_with q f st = (initial_state q f)\<lparr>queueState := st\<rparr>"

text \<open>
  One iteration on a single pending task of the runner \<^verbatim>\<open>hyperplay\<close>: the states after
  the queue notification, after the head is written back, and after the await of
  \<^verbatim>\<open>downloadGame\<close>.
\<close>

definition quiet :: "nat \<Rightarrow> request list" where
  "quiet t = []"

definition ex_task :: DMQueueElement where
  "ex_task = task ''G1'' ''hyperplay'' ''install''"

definition ex_state :: dm_state where
  "ex_state = state_with (Some [ex_task]) None Running"

definition ex_state1 :: dm_state where
  "ex_state1 = emit [Frontend (changedDMQueueInformation [ex_task])] ex_state"




subsection \<open>Facts about the list helpers\<close>

lemma findIndex_None: "findIndex P xs = None \<longleftrightarrow> (\<forall>x\<in>set xs. \<not> P x)"
  by (induction xs) auto

lemma findIndex_Some:
  "findIndex P xs = Some i \<Longrightarrow> i < length xs \<and> P (xs ! i) \<and> (\<forall>j<i. \<not> P (xs ! j))"
proof (induction xs arbitrary: i)
  case Nil
  then show ?case by simp
next
  case (Cons x xs)
  show ?case
  proof (cases "P x")
    case True
    with Cons.prems show ?thesis by simp
  next
    case False
    with Cons.prems obtain k where k: "findIndex P xs = Some k" "i = Suc k"
      by auto
    from Cons.IH [OF k(1)] False k(2) show ?thesis
      by (auto simp: less_Suc_eq_0_disj)
  qed
qed

lemma findIndex_first:
  "i < length xs \<Longrightarrow> P (xs ! i) \<Longrightarrow> \<forall>j<i. \<not> P (xs ! j) \<Longrightarrow> findIndex P xs = Some i"
proof (cases "findIndex P xs")
  case None
  assume "i < length xs" "P (xs ! i)"
  with None show ?thesis
    by (auto simp: findIndex_None)
next
  case (Some k)
  assume i: "i < length xs" "P (xs ! i)" "\<forall>j<i. \<not> P (xs ! j)"
  from findIndex_Some [OF Some] have k: "k < length xs" "P (xs ! k)" "\<forall>j<k. \<not> P (xs ! j)"
    by simp_all
  have "\<not> k < i"
    using i(3) k(2) by blast
  moreover have "\<not> i < k"
    using k(3) i(2) by blast
  ultimately have "k = i"
    by simp
  with Some show ?thesis by simp
qed

lemma findIndex_present:
  "x \<in> set xs \<Longrightarrow> P x \<Longrightarrow> \<exists>i. findIndex P xs = Some i"
  by (cases "findIndex P xs") (auto simp: findIndex_None)

lemma same_app_name: "same_app element el \<longleftrightarrow> name_of el = name_of element"
  by (simp add: same_app_def name_of_def)

lemma name_in_names: "i < length elements \<Longrightarrow> name_of (elements ! i) \<in> set (names elements)"
  by (simp add: names_def)

lemma names_update_same:
  assumes "i < length elements" "name_of (elements ! i) = name_of e"
  shows "names (elements[i := e]) = names elements"
proof -
  have "(map name_of elements)[i := name_of e] = map name_of elements"
    using assms by (metis list_update_id nth_map)
  then show ?thesis
    by (simp add: names_def map_update)
qed

lemma names_addToQueue_elements:
  "names (addToQueue_elements element elements) =
     (if name_of element \<in> set (names elements) then names elements
      else names elements @ [name_of element])"
proof (cases "findIndex (same_app element) elements")
  case None
  then have "\<forall>x\<in>set elements. name_of x \<noteq> name_of element"
    by (simp add: findIndex_None same_app_name)
  with None show ?thesis
    by (auto simp: addToQueue_elements_def names_def)
next
  case (Some i)
  from findIndex_Some [OF Some]
  have i: "i < length elements" "name_of (elements ! i) = name_of element"
    by (simp_all add: same_app_name)
  from name_in_names [OF i(1)] i(2) have "name_of element \<in> set (names elements)"
    by simp
  with Some names_update_same [OF i] show ?thesis
    by (simp add: addToQueue_elements_def)
qed

lemma names_addToFinished_elements:
  "names (addToFinished_elements element st elements) =
     (if name_of element \<in> set (names elements) then names elements
      else names elements @ [name_of element])"
proof (cases "findIndex (same_app element) elements")
  case None
  then have "\<forall>x\<in>set elements. name_of x \<noteq> name_of element"
    by (simp add: findIndex_None same_app_name)
  with None show ?thesis
    by (auto simp: addToFinished_elements_def names_def name_of_def)
next
  case (Some i)
  let ?e = "element\<lparr>status := Some (case st of None \<Rightarrow> Abort | Some x \<Rightarrow> x)\<rparr>"
  have e: "name_of ?e = name_of element"
    by (simp add: name_of_def)
  from findIndex_Some [OF Some]
  have i: "i < length elements" "name_of (elements ! i) = name_of ?e"
    by (simp_all add: same_app_name e)
  from name_in_names [OF i(1)] i(2) e have "name_of element \<in> set (names elements)"
    by simp
  with Some names_update_same [OF i] show ?thesis
    by (simp add: addToFinished_elements_def)
qed

lemma distinct_take_drop_Suc:
  assumes "distinct ys"
  shows "distinct (take i ys @ drop (Suc i) ys)"
  using assms by (simp add: set_take_disj_set_drop_if_distinct)

lemma distinct_names_splice1:
  "distinct (names xs) \<Longrightarrow> distinct (names (splice1 i xs))"
proof -
  assume d: "distinct (names xs)"
  have "names (splice1 i xs) = take i (names xs) @ drop (Suc i) (names xs)"
    by (simp add: splice1_def names_def take_map drop_map)
  with distinct_take_drop_Suc [OF d] show ?thesis by simp
qed

subsection \<open>What each function does to the state\<close>

lemma get_queue_simps [simp]:
  "get_queue (emit es s) = get_queue s"
  "get_queue (s\<lparr>store_queue := Some q\<rparr>) = q"
  "get_queue (s\<lparr>store_finished := f\<rparr>) = get_queue s"
  "get_queue (s\<lparr>tick := t\<rparr>) = get_queue s"
  "get_queue (s\<lparr>queueState := st\<rparr>) = get_queue s"
  by (simp_all add: get_queue_def emit_def)

lemma get_finished_simps [simp]:
  "get_finished (emit es s) = get_finished s"
  "get_finished (s\<lparr>store_finished := Some q\<rparr>) = q"
  "get_finished (s\<lparr>store_queue := f\<rparr>) = get_finished s"
  "get_finished (s\<lparr>tick := t\<rparr>) = get_finished s"
  "get_finished (s\<lparr>queueState := st\<rparr>) = get_finished s"
  by (simp_all add: get_finished_def emit_def)

lemma emit_simps [simp]:
  "store_queue (emit es s) = store_queue s"
  "store_finished (emit es s) = store_finished s"
  "queueState (emit es s) = queueState s"
  "tick (emit es s) = tick s"
  "trace (emit es s) = trace s @ es"
  by (simp_all add: emit_def)

lemma removeFromQueue_frame [simp]:
  "store_finished (removeFromQueue a s) = store_finished s"
  "queueState (removeFromQueue a s) = queueState s"
  "tick (removeFromQueue a s) = tick s"
  "get_finished (removeFromQueue a s) = get_finished s"
  by (simp_all add: removeFromQueue_def Let_def get_finished_def split: option.split)

lemma removeFromQueue_store_queue:
  "store_queue (removeFromQueue a s) =
     (if a \<noteq> [] \<and> store_queue s \<noteq> None then
        (case findIndex (\<lambda>el. name_of el = a) (get_queue s) of
           Some i \<Rightarrow> Some (splice1 i (get_queue s))
         | None \<Rightarrow> store_queue s)
      else store_queue s)"
  by (simp add: removeFromQueue_def Let_def name_of_def split: option.split)

lemma removeFromQueue_get_queue:
  "get_queue (removeFromQueue a s) =
     (if a \<noteq> [] then
        (case findIndex (\<lambda>el. name_of el = a) (get_queue s) of
           Some i \<Rightarrow> splice1 i (get_queue s)
         | None \<Rightarrow> get_queue s)
      else get_queue s)"
  by (auto simp: removeFromQueue_def Let_def name_of_def get_queue_def split: option.split)

lemma removeFromQueue_trace:
  "trace (removeFromQueue a s) =
     (if a \<noteq> [] \<and> store_queue s \<noteq> None then
        trace s
        @ (case findIndex (\<lambda>el. name_of el = a) (get_queue s) of
             Some i \<Rightarrow> [StoreDelete ''queue'', StoreSet ''queue'']
           | None \<Rightarrow> [])
        @ [Frontend (gameStatusUpdate a None None ''done''),
           LogInfo [a, ''removed from download manager.''],
           Frontend (changedDMQueueInformation (get_queue (removeFromQueue a s)))]
      else trace s)"
  by (simp add: removeFromQueue_def Let_def name_of_def split: option.split)

lemma removeFromQueue_noop:
  "a = [] \<or> store_queue s = None \<Longrightarrow> removeFromQueue a s = s"
  by (auto simp: removeFromQueue_def)

lemma addToFinished_frame [simp]:
  "store_queue (addToFinished element st s) = store_queue s"
  "queueState (addToFinished element st s) = queueState s"
  "tick (addToFinished element st s) = tick s"
  "get_queue (addToFinished element st s) = get_queue s"
  "store_finished (addToFinished element st s) =
     Some (addToFinished_elements element st (get_finished s))"
  "get_finished (addToFinished element st s) =
     addToFinished_elements element st (get_finished s)"
  "trace (addToFinished element st s) =
     trace s @ [StoreSet ''finished'',
                LogInfo [appName (params element), ''added to download manager finished.'']]"
  by (simp_all add: addToFinished_def)

lemma addToQueue_sync_frame [simp]:
  "store_finished (addToQueue_sync eo s) = store_finished s"
  "queueState (addToQueue_sync eo s) = queueState s"
  "tick (addToQueue_sync eo s) = tick s"
  "get_finished (addToQueue_sync eo s) = get_finished s"
  by (simp_all add: addToQueue_sync_def Let_def split: option.split)

lemma addToQueue_sync_Some [simp]:
  "store_queue (addToQueue_sync (Some e) s) = Some (addToQueue_elements e (get_queue s))"
  "get_queue (addToQueue_sync (Some e) s) = addToQueue_elements e (get_queue s)"
  "trace (addToQueue_sync (Some e) s) =
     trace s @ [Frontend (gameStatusUpdate (appName (params e)) (Some (runner (params e)))
                  (Some (path (params e))) ''queued''),
                StoreSet ''queue'',
                LogInfo [title (params e), '' was added to the download queue.''],
                Frontend (changedDMQueueInformation (addToQueue_elements e (get_queue s)))]"
  by (simp_all add: addToQueue_sync_def Let_def)

lemma addToQueue_sync_None:
  "addToQueue_sync None s = emit [LogError ''Can not add undefined element to queue!''] s"
  by (simp add: addToQueue_sync_def)

lemma notifications_append [simp]:
  "notifications (xs @ ys) = notifications xs @ notifications ys"
  by (simp add: notifications_def)

lemma notifications_Cons [simp]:
  "notifications [] = []"
  "notifications (Frontend m # tr) = m # notifications tr"
  "notifications (LogInfo l # tr) = notifications tr"
  "notifications (LogError x # tr) = notifications tr"
  "notifications (Call c # tr) = notifications tr"
  "notifications (StoreSet k # tr) = notifications tr"
  "notifications (StoreDelete k # tr) = notifications tr"
  by (simp_all add: notifications_def)

lemma in_names_first:
  assumes "a \<in> set (names elements)"
  shows "\<exists>i<length elements. name_of (elements ! i) = a \<and> (\<forall>j<i. name_of (elements ! j) \<noteq> a)
           \<and> findIndex (\<lambda>el. name_of el = a) elements = Some i"
proof -
  from assms obtain x where "x \<in> set elements" "name_of x = a"
    by (auto simp: names_def)
  then obtain i where i: "findIndex (\<lambda>el. name_of el = a) elements = Some i"
    using findIndex_present [of x elements "\<lambda>el. name_of el = a"] by blast
  from findIndex_Some [OF i] i show ?thesis
    by blast
qed

lemma not_in_names:
  "a \<notin> set (names elements) \<Longrightarrow> findIndex (\<lambda>el. name_of el = a) elements = None"
  by (auto simp: findIndex_None names_def)

lemma same_app_eq: "same_app element = (\<lambda>el. name_of el = name_of element)"
  by (rule ext) (simp add: same_app_name)

subsection \<open>Finished history: the status fallback\<close>

text \<open>
  C10. \<^verbatim>\<open>addToFinished\<close> called with a null or undefined status: when the history
  already has an entry with the task's appName, the first such entry is overwritten by
  the task with status \<^verbatim>\<open>abort\<close>; when it has none, the task is appended with the
  nullish status as it is.
\<close>

theorem addToFinished_nullish_status:
  "(name_of element \<in> set (names (get_finished s)) \<longrightarrow>
      (\<exists>i<length (get_finished s).
         name_of (get_finished s ! i) = name_of element \<and>
         (\<forall>j<i. name_of (get_finished s ! j) \<noteq> name_of element) \<and>
         get_finished (addToFinished element None s) =
           (get_finished s)[i := element\<lparr>status := Some Abort\<rparr>]))
   \<and> (name_of element \<notin> set (names (get_finished s)) \<longrightarrow>
      get_finished (addToFinished element None s) =
        get_finished s @ [element\<lparr>status := None\<rparr>])"
proof (intro conjI impI)
  assume "name_of element \<in> set (names (get_finished s))"
  from in_names_first [OF this] show
    "\<exists>i<length (get_finished s).
       name_of (get_finished s ! i) = name_of element \<and>
       (\<forall>j<i. name_of (get_finished s ! j) \<noteq> name_of element) \<and>
       get_finished (addToFinished element None s) =
         (get_finished s)[i := element\<lparr>status := Some Abort\<rparr>]"
    by (auto simp: addToFinished_elements_def same_app_eq)
next
  assume "name_of element \<notin> set (names (get_finished s))"
  from not_in_names [OF this] show
    "get_finished (addToFinished element None s) = get_finished s @ [element\<lparr>status := None\<rparr>]"
    by (simp add: addToFinished_elements_def same_app_eq)
qed

theorem addToFinished_nullish_status_witness:
  "get_finished (addToFinished (task ''G1'' ''gog'' ''install'') None
      (state_with None (Some [(task ''G1'' ''gog'' ''update'')\<lparr>status := Some Done\<rparr>]) Idle))
     = [(task ''G1'' ''gog'' ''install'')\<lparr>status := Some Abort\<rparr>]
   \<and> get_finished (addToFinished (task ''G1'' ''gog'' ''install'') None
      (state_with None None Idle))
     = [(task ''G1'' ''gog'' ''install'')\<lparr>status := None\<rparr>]"
  using addToFinished_nullish_status [of "task ''G1'' ''gog'' ''install''"
          "state_with None (Some [(task ''G1'' ''gog'' ''update'')\<lparr>status := Some Done\<rparr>]) Idle"]
        addToFinished_nullish_status [of "task ''G1'' ''gog'' ''install''"
          "state_with None None Idle"]
  by (simp add: state_with_def initial_state_def task_def names_def name_of_def
        get_finished_def)

subsection \<open>removeFromQueue\<close>

text \<open>
  C8, as the code has it. \<^verbatim>\<open>removeFromQueue\<close> never changes the finished history;
  an appName that is not in the pending queue leaves the queue as it is; an empty
  appName changes nothing at all; a non-empty appName that is in the pending queue has
  its first entry removed, the other entries keeping their order.
\<close>

theorem removeFromQueue_frame_effect:
  "store_finished (removeFromQueue a s) = store_finished s
   \<and> (a \<notin> set (names (get_queue s)) \<longrightarrow> store_queue (removeFromQueue a s) = store_queue s)
   \<and> (a = [] \<longrightarrow> removeFromQueue a s = s)
   \<and> (a \<noteq> [] \<and> a \<in> set (names (get_queue s)) \<longrightarrow>
        (\<exists>i<length (get_queue s).
           name_of (get_queue s ! i) = a \<and>
           (\<forall>j<i. name_of (get_queue s ! j) \<noteq> a) \<and>
           store_queue (removeFromQueue a s) =
             Some (take i (get_queue s) @ drop (Suc i) (get_queue s))))"
proof (intro conjI impI)
  show "store_finished (removeFromQueue a s) = store_finished s"
    by simp
next
  assume "a \<notin> set (names (get_queue s))"
  from not_in_names [OF this] show "store_queue (removeFromQueue a s) = store_queue s"
    by (simp add: removeFromQueue_store_queue)
next
  assume "a = []"
  then show "removeFromQueue a s = s"
    by (simp add: removeFromQueue_noop)
next
  assume a: "a \<noteq> [] \<and> a \<in> set (names (get_queue s))"
  then have "store_queue s \<noteq> None"
    by (cases "store_queue s") (simp_all add: get_queue_def names_def)
  with a in_names_first [of a "get_queue s"] show
    "\<exists>i<length (get_queue s).
       name_of (get_queue s ! i) = a \<and>
       (\<forall>j<i. name_of (get_queue s ! j) \<noteq> a) \<and>
       store_queue (removeFromQueue a s) =
         Some (take i (get_queue s) @ drop (Suc i) (get_queue s))"
    by (auto simp: removeFromQueue_store_queue splice1_def)
qed

theorem removeFromQueue_frame_effect_witness:
  "store_queue (removeFromQueue ''G2''
      (state_with (Some [task ''G1'' ''gog'' ''install'', task ''G2'' ''hyperplay'' ''install''])
         None Running))
     = Some [task ''G1'' ''gog'' ''install'']
   \<and> store_queue (removeFromQueue ''G3''
      (state_with (Some [task ''G1'' ''gog'' ''install'']) None Running))
     = Some [task ''G1'' ''gog'' ''install'']
   \<and> removeFromQueue [] (state_with (Some [task [] ''hyperplay'' ''install'']) None Running)
     = state_with (Some [task [] ''hyperplay'' ''install'']) None Running"
  using removeFromQueue_frame_effect [of "''G2''"
          "state_with (Some [task ''G1'' ''gog'' ''install'', task ''G2'' ''hyperplay'' ''install''])
             None Running"]
        removeFromQueue_frame_effect [of "''G3''"
          "state_with (Some [task ''G1'' ''gog'' ''install'']) None Running"]
        removeFromQueue_frame_effect [of "[]"
          "state_with (Some [task [] ''hyperplay'' ''install'']) None Running"]
  by (auto simp: state_with_def initial_state_def task_def names_def name_of_def
        get_queue_def less_Suc_eq)

text \<open>
  The claim without the restriction to non-empty appNames fails: a pending task whose
  appName is the empty string is not removed by \<^verbatim>\<open>removeFromQueue('')\<close>.
\<close>

theorem removeFromQueue_empty_name_counterexample:
  "[] \<in> set (names (get_queue (state_with (Some [task [] ''hyperplay'' ''install'']) None Running)))
   \<and> get_queue (removeFromQueue []
        (state_with (Some [task [] ''hyperplay'' ''install'']) None Running))
     = [task [] ''hyperplay'' ''install'']"
  by (simp add: removeFromQueue_def state_with_def initial_state_def task_def names_def
        name_of_def get_queue_def)

text \<open>
  C9. \<^verbatim>\<open>removeFromQueue\<close> sends its two frontend messages (\<^verbatim>\<open>gameStatusUpdate\<close>
  with status \<^verbatim>\<open>done\<close>, then \<^verbatim>\<open>changedDMQueueInformation\<close>) exactly when the appName
  is non-empty and the store has the key \<^verbatim>\<open>queue\<close>, also when no task matched and the
  queue stays as it was; with an empty appName or without the key the whole state,
  trace included, is unchanged.
\<close>

theorem removeFromQueue_notifications:
  "(a \<noteq> [] \<and> store_queue s \<noteq> None \<longrightarrow>
      notifications (trace (removeFromQueue a s)) =
        notifications (trace s)
        @ [gameStatusUpdate a None None ''done'',
           changedDMQueueInformation (get_queue (removeFromQueue a s))])
   \<and> (a \<noteq> [] \<and> store_queue s \<noteq> None \<and> a \<notin> set (names (get_queue s)) \<longrightarrow>
      store_queue (removeFromQueue a s) = store_queue s \<and>
      notifications (trace (removeFromQueue a s)) =
        notifications (trace s)
        @ [gameStatusUpdate a None None ''done'', changedDMQueueInformation (get_queue s)])
   \<and> (a = [] \<or> store_queue s = None \<longrightarrow> removeFromQueue a s = s)"
proof (intro conjI impI)
  assume "a \<noteq> [] \<and> store_queue s \<noteq> None"
  then show "notifications (trace (removeFromQueue a s)) =
        notifications (trace s)
        @ [gameStatusUpdate a None None ''done'',
           changedDMQueueInformation (get_queue (removeFromQueue a s))]"
    by (simp add: removeFromQueue_trace split: option.split)
next
  assume a: "a \<noteq> [] \<and> store_queue s \<noteq> None \<and> a \<notin> set (names (get_queue s))"
  then have n: "findIndex (\<lambda>el. name_of el = a) (get_queue s) = None"
    by (simp add: not_in_names)
  with a show "store_queue (removeFromQueue a s) = store_queue s"
    by (simp add: removeFromQueue_store_queue)
  from a n show "notifications (trace (removeFromQueue a s)) =
        notifications (trace s)
        @ [gameStatusUpdate a None None ''done'', changedDMQueueInformation (get_queue s)]"
    by (simp add: removeFromQueue_trace removeFromQueue_get_queue)
next
  assume "a = [] \<or> store_queue s = None"
  then show "removeFromQueue a s = s"
    by (rule removeFromQueue_noop)
qed

theorem removeFromQueue_notifications_witness:
  "notifications (trace (removeFromQueue ''G3''
      (state_with (Some [task ''G1'' ''gog'' ''install'']) None Running)))
     = [gameStatusUpdate ''G3'' None None ''done'',
        changedDMQueueInformation [task ''G1'' ''gog'' ''install'']]
   \<and> removeFromQueue ''G3'' (state_with None None Running) = state_with None None Running
   \<and> removeFromQueue [] (state_with (Some [task ''G1'' ''gog'' ''install'']) None Running)
     = state_with (Some [task ''G1'' ''gog'' ''install'']) None Running"
  using removeFromQueue_notifications [of "''G3''"
          "state_with (Some [task ''G1'' ''gog'' ''install'']) None Running"]
        removeFromQueue_notifications [of "''G3''" "state_with None None Running"]
        removeFromQueue_notifications [of "[]"
          "state_with (Some [task ''G1'' ''gog'' ''install'']) None Running"]
  by (simp add: state_with_def initial_state_def task_def names_def name_of_def
        get_queue_def)

subsection \<open>Requests served during an await\<close>

lemma operations_append [simp]: "operations (xs @ ys) = operations xs @ operations ys"
  by (simp add: operations_def)

lemma retired_append [simp]: "retired (xs @ ys) = retired xs @ retired ys"
  by (simp add: retired_def)

lemma operations_Cons [simp]:
  "operations [] = []"
  "operations (e # tr) = (if is_operation e then e # operations tr else operations tr)"
  by (simp_all add: operations_def)

lemma retired_Cons [simp]:
  "retired [] = []"
  "retired (e # tr) = retired_name e @ retired tr"
  by (simp_all add: retired_def)

lemma operations_removeFromQueue [simp]:
  "operations (trace (removeFromQueue a s)) = operations (trace s)"
  by (simp add: removeFromQueue_trace split: option.split)

lemma retired_removeFromQueue [simp]:
  "retired (trace (removeFromQueue a s)) = retired (trace s)"
  by (simp add: removeFromQueue_trace split: option.split)

lemma operations_addToQueue_sync [simp]:
  "operations (trace (addToQueue_sync eo s)) = operations (trace s)"
  by (cases eo) (simp_all add: addToQueue_sync_None)

lemma retired_addToQueue_sync [simp]:
  "retired (trace (addToQueue_sync eo s)) = retired (trace s)"
  by (cases eo) (simp_all add: addToQueue_sync_None)

lemma queue_distinct_removeFromQueue:
  "queue_distinct s \<Longrightarrow> queue_distinct (removeFromQueue a s)"
  by (simp add: queue_distinct_def removeFromQueue_get_queue distinct_names_splice1
        split: option.split)

lemma queue_distinct_addToQueue_sync:
  "queue_distinct s \<Longrightarrow> queue_distinct (addToQueue_sync eo s)"
  by (cases eo) (simp_all add: queue_distinct_def addToQueue_sync_None
        names_addToQueue_elements)

lemma serve_frame:
  "serve rs s = Some s' \<Longrightarrow>
     store_finished s' = store_finished s \<and> queueState s' = queueState s \<and>
     tick s' = tick s \<and> operations (trace s') = operations (trace s) \<and>
     retired (trace s') = retired (trace s)"
proof (induction rs s rule: serve.induct)
  case (1 s)
  then show ?case by simp
next
  case (2 e rs s)
  then show ?case
    by (simp add: Let_def split: if_splits)
next
  case (3 a rs s)
  then show ?case by simp
qed

lemma serve_queue_distinct:
  "serve rs s = Some s' \<Longrightarrow> queue_distinct s \<Longrightarrow> queue_distinct s'"
proof (induction rs s rule: serve.induct)
  case (1 s)
  then show ?case by simp
next
  case (2 e rs s)
  then show ?case
    by (simp add: Let_def queue_distinct_addToQueue_sync split: if_splits)
next
  case (3 a rs s)
  then show ?case
    by (simp add: queue_distinct_removeFromQueue)
qed

lemma serve_running:
  "queueState s = Running \<Longrightarrow> \<exists>s'. serve rs s = Some s'"
proof (induction rs s rule: serve.induct)
  case (1 s)
  then show ?case by simp
next
  case (2 e rs s)
  then show ?case by (simp add: Let_def)
next
  case (3 a rs s)
  then show ?case by simp
qed

lemma serve_Nil_Some [simp]: "serve [] s = Some s"
  by simp

lemma suspend_frame:
  "suspend w s = Some s' \<Longrightarrow>
     store_finished s' = store_finished s \<and> queueState s' = queueState s \<and>
     tick s' = Suc (tick s) \<and> operations (trace s') = operations (trace s) \<and>
     retired (trace s') = retired (trace s)"
  using serve_frame [of "arrivals w (tick s)" "s\<lparr>tick := Suc (tick s)\<rparr>" s']
  by (simp add: suspend_def)

lemma suspend_running:
  "queueState s = Running \<Longrightarrow> \<exists>s'. suspend w s = Some s'"
  using serve_running [of "s\<lparr>tick := Suc (tick s)\<rparr>" "arrivals w (tick s)"]
  by (simp add: suspend_def)

lemma suspend_queue_distinct:
  "suspend w s = Some s' \<Longrightarrow> queue_distinct s \<Longrightarrow> queue_distinct s'"
  using serve_queue_distinct [of "arrivals w (tick s)" "s\<lparr>tick := Suc (tick s)\<rparr>" s']
  by (simp add: suspend_def queue_distinct_def)

lemma await_cases:
  "await w reply s =
     (case suspend w s of
        None \<Rightarrow> Reenter s
      | Some s1 \<Rightarrow> (case reply of Inl f \<Rightarrow> Raise f s1 | Inr v \<Rightarrow> Ok (v, s1)))"
  by (simp add: await_def)

lemma result_state_await:
  "result_state (await w reply s) = (case suspend w s of None \<Rightarrow> s | Some s1 \<Rightarrow> s1)"
  by (cases "suspend w s"; cases reply) (simp_all add: await_def)

lemma await_frame:
  "store_finished (result_state (await w reply s)) = store_finished s"
  "queueState (result_state (await w reply s)) = queueState s"
  "operations (trace (result_state (await w reply s))) = operations (trace s)"
  "retired (trace (result_state (await w reply s))) = retired (trace s)"
proof -
  show "store_finished (result_state (await w reply s)) = store_finished s"
    by (cases "suspend w s") (simp_all add: result_state_await suspend_frame)
  show "queueState (result_state (await w reply s)) = queueState s"
    by (cases "suspend w s") (simp_all add: result_state_await suspend_frame)
  show "operations (trace (result_state (await w reply s))) = operations (trace s)"
    by (cases "suspend w s") (simp_all add: result_state_await suspend_frame)
  show "retired (trace (result_state (await w reply s))) = retired (trace s)"
    by (cases "suspend w s") (simp_all add: result_state_await suspend_frame)
qed

lemma await_Ok:
  "await w reply s = Ok (v, s') \<Longrightarrow> reply = Inr v \<and> suspend w s = Some s'"
  by (auto simp: await_def split: option.splits sum.splits)

lemma await_Raise:
  "await w reply s = Raise f s' \<Longrightarrow> reply = Inl f \<and> suspend w s = Some s'"
  by (auto simp: await_def split: option.splits sum.splits)

lemma await_Reenter:
  "await w reply s = Reenter s' \<Longrightarrow> suspend w s = None \<and> s' = s"
  by (auto simp: await_def split: option.splits sum.splits)

subsection \<open>The guard of addToQueue\<close>




subsection \<open>The parts of the loop body\<close>

lemma preserved_refl [simp]: "preserved s s"
  by (simp add: preserved_def)

lemma preserved_trans: "preserved s s1 \<Longrightarrow> preserved s1 s2 \<Longrightarrow> preserved s s2"
  by (simp add: preserved_def)

lemma preserved_emit: "retired es = [] \<Longrightarrow> preserved s (emit es s)"
  by (simp add: preserved_def)

lemma queue_distinct_emit [simp]: "queue_distinct (emit es s) = queue_distinct s"
  by (simp add: queue_distinct_def)

lemma finished_distinct_emit [simp]: "finished_distinct (emit es s) = finished_distinct s"
  by (simp add: finished_distinct_def)

lemma await_preserved: "preserved s (result_state (await w reply s))"
proof (cases "suspend w s")
  case None
  then show ?thesis by (simp add: result_state_await)
next
  case (Some s1)
  with suspend_frame [OF Some] show ?thesis
    by (simp add: result_state_await preserved_def)
qed

lemma await_queue_distinct:
  "queue_distinct s \<Longrightarrow> queue_distinct (result_state (await w reply s))"
  by (cases "suspend w s") (simp_all add: result_state_await suspend_queue_distinct)

lemma await_running:
  "queueState s = Running \<Longrightarrow> await w reply s \<noteq> Reenter s'"
  using suspend_running [of s w]
  by (cases reply) (auto simp: await_def)

lemma resolveSize_state:
  "result_state (resolveSize w el s) =
     (if manifest_runner (runner (params el)) then
        result_state (await w (getInstallInfo w (tick s) (appName (params el))
                         (runner (params el)) (platformToInstall (params el)))
          (emit [Call (GetInstallInfo (appName (params el)) (runner (params el))
                   (platformToInstall (params el)))]
            (emit [Frontend (changedDMQueueInformation (get_queue s))] s)))
      else emit [Frontend (changedDMQueueInformation (get_queue s))] s)"
proof (cases "manifest_runner (runner (params el))")
  case False
  then show ?thesis by (simp add: resolveSize_def Let_def)
next
  case True
  let ?a = "await w (getInstallInfo w (tick s) (appName (params el))
                         (runner (params el)) (platformToInstall (params el)))
          (emit [Call (GetInstallInfo (appName (params el)) (runner (params el))
                   (platformToInstall (params el)))]
            (emit [Frontend (changedDMQueueInformation (get_queue s))] s))"
  from True show ?thesis
    by (cases ?a) (auto simp: resolveSize_def Let_def)
qed

lemma resolveSize_preserved: "preserved s (result_state (resolveSize w el s))"
proof -
  let ?s1 = "emit [Frontend (changedDMQueueInformation (get_queue s))] s"
  let ?s2 = "emit [Call (GetInstallInfo (appName (params el)) (runner (params el))
                   (platformToInstall (params el)))] ?s1"
  have 1: "preserved s ?s1"
    by (rule preserved_emit) simp
  have 2: "preserved ?s1 ?s2"
    by (rule preserved_emit) simp
  show ?thesis
  proof (cases "manifest_runner (runner (params el))")
    case False
    with 1 show ?thesis by (simp add: resolveSize_state)
  next
    case True
    with preserved_trans [OF preserved_trans [OF 1 2] await_preserved]
    show ?thesis by (simp add: resolveSize_state)
  qed
qed

lemma resolveSize_queue_distinct:
  "queue_distinct s \<Longrightarrow> queue_distinct (result_state (resolveSize w el s))"
  by (simp add: resolveSize_state await_queue_distinct)

lemma resolveSize_operations:
  "operations (trace (result_state (resolveSize w el s))) = operations (trace s)"
  by (simp add: resolveSize_state await_frame)

lemma resolveSize_Ok:
  "resolveSize w el s = Ok ((e1, qs), s1) \<Longrightarrow> qs = get_queue s \<and> (\<exists>sz. e1 = with_size sz el)"
  by (auto simp: resolveSize_def Let_def split: if_splits step.splits)

lemma resolveSize_running:
  "queueState s = Running \<Longrightarrow> resolveSize w el s \<noteq> Reenter s'"
proof
  assume r: "queueState s = Running" and a: "resolveSize w el s = Reenter s'"
  let ?s2 = "emit [Call (GetInstallInfo (appName (params el)) (runner (params el))
                   (platformToInstall (params el)))]
               (emit [Frontend (changedDMQueueInformation (get_queue s))] s)"
  from a have "await w (getInstallInfo w (tick s) (appName (params el))
                         (runner (params el)) (platformToInstall (params el))) ?s2 = Reenter s'"
    by (auto simp: resolveSize_def Let_def split: if_splits step.splits)
  moreover from r have "queueState ?s2 = Running"
    by simp
  ultimately show False
    using await_running by blast
qed

lemma name_of_with_size [simp]: "name_of (with_size sz el) = name_of el"
  by (simp add: with_size_def name_of_def)

lemma persistHead_eq:
  "persistHead w e1 qs s1 =
     (e1\<lparr>startTime := now w (tick s1)\<rparr>,
      emit [StoreSet ''queue'']
        (s1\<lparr>store_queue := Some (set_first (e1\<lparr>startTime := now w (tick s1)\<rparr>) qs)\<rparr>))"
  by (simp add: persistHead_def Let_def)

lemma persistHead_preserved: "preserved s1 (snd (persistHead w e1 qs s1))"
  by (simp add: persistHead_eq preserved_def)

lemma names_set_first:
  "getFirstQueueElement s = Some el \<Longrightarrow> name_of e2 = name_of el \<Longrightarrow>
     names (set_first e2 (get_queue s)) = names (get_queue s)"
  by (cases "get_queue s") (simp_all add: getFirstQueueElement_def set_first_def names_def)

lemma dispatch_state:
  "dispatch w el s = Ok (Some Error, s) \<or>
   (\<exists>reply c. dispatch w el s = await w reply (emit [Call c] s))"
  by (auto simp: dispatch_def)

lemma dispatch_preserved: "preserved s (result_state (dispatch w el s))"
proof -
  from dispatch_state [of w el s] show ?thesis
  proof
    assume "dispatch w el s = Ok (Some Error, s)"
    then show ?thesis by simp
  next
    assume "\<exists>reply c. dispatch w el s = await w reply (emit [Call c] s)"
    then obtain reply c where d: "dispatch w el s = await w reply (emit [Call c] s)"
      by blast
    have "preserved s (emit [Call c] s)"
      by (rule preserved_emit) simp
    from preserved_trans [OF this await_preserved] d show ?thesis
      by simp
  qed
qed

lemma dispatch_queue_distinct:
  "queue_distinct s \<Longrightarrow> queue_distinct (result_state (dispatch w el s))"
proof -
  assume q: "queue_distinct s"
  from dispatch_state [of w el s] show ?thesis
  proof
    assume "dispatch w el s = Ok (Some Error, s)"
    with q show ?thesis by simp
  next
    assume "\<exists>reply c. dispatch w el s = await w reply (emit [Call c] s)"
    then obtain reply c where d: "dispatch w el s = await w reply (emit [Call c] s)"
      by blast
    from q have "queue_distinct (emit [Call c] s)"
      by simp
    from await_queue_distinct [OF this] d show ?thesis
      by simp
  qed
qed

lemma dispatch_running:
  "queueState s = Running \<Longrightarrow> dispatch w el s \<noteq> Reenter s'"
proof -
  assume r: "queueState s = Running"
  from dispatch_state [of w el s] show ?thesis
  proof
    assume "dispatch w el s = Ok (Some Error, s)"
    then show ?thesis by simp
  next
    assume "\<exists>reply c. dispatch w el s = await w reply (emit [Call c] s)"
    then obtain reply c where d: "dispatch w el s = await w reply (emit [Call c] s)"
      by blast
    from r have "queueState (emit [Call c] s) = Running"
      by simp
    from await_running [OF this] d show ?thesis
      by simp
  qed
qed

lemma retire_eq:
  "retire w el st s =
     removeFromQueue (appName (params el)) (addToFinished (el\<lparr>endTime := now w (tick s)\<rparr>) st s)"
  by (simp add: retire_def Let_def)

lemma retire_frame [simp]:
  "queueState (retire w el st s) = queueState s"
  "tick (retire w el st s) = tick s"
  "get_finished (retire w el st s) =
     addToFinished_elements (el\<lparr>endTime := now w (tick s)\<rparr>) st (get_finished s)"
  "retired (trace (retire w el st s)) = retired (trace s) @ [name_of el]"
  by (simp_all add: retire_eq name_of_def)

lemma retire_queue_distinct: "queue_distinct s \<Longrightarrow> queue_distinct (retire w el st s)"
proof -
  assume "queue_distinct s"
  then have "queue_distinct (addToFinished (el\<lparr>endTime := now w (tick s)\<rparr>) st s)"
    by (simp add: queue_distinct_def)
  then show ?thesis
    unfolding retire_eq by (rule queue_distinct_removeFromQueue)
qed

lemma retire_finished_distinct: "finished_distinct s \<Longrightarrow> finished_distinct (retire w el st s)"
  by (simp add: finished_distinct_def names_addToFinished_elements)

subsection \<open>One iteration and the loop\<close>

lemma iteration_cases [case_names raise1 reenter1 raise2 reenter2 ok]:
  obtains
    (raise1) f s1 where "resolveSize w el s = Raise f s1" "iteration w el s = Raise f s1"
  | (reenter1) s1 where "resolveSize w el s = Reenter s1" "iteration w el s = Reenter s1"
  | (raise2) e1 qs s1 e2 s2 f s3 where
      "resolveSize w el s = Ok ((e1, qs), s1)" "persistHead w e1 qs s1 = (e2, s2)"
      "dispatch w e2 s2 = Raise f s3" "iteration w el s = Raise f s3"
  | (reenter2) e1 qs s1 e2 s2 s3 where
      "resolveSize w el s = Ok ((e1, qs), s1)" "persistHead w e1 qs s1 = (e2, s2)"
      "dispatch w e2 s2 = Reenter s3" "iteration w el s = Reenter s3"
  | (ok) e1 qs s1 e2 s2 st s3 where
      "resolveSize w el s = Ok ((e1, qs), s1)" "persistHead w e1 qs s1 = (e2, s2)"
      "dispatch w e2 s2 = Ok (st, s3)" "iteration w el s = Ok (retire w e2 st s3)"
proof (cases "resolveSize w el s")
  case (Raise f s1)
  then have "iteration w el s = Raise f s1"
    by (simp add: iteration_def)
  with Raise show ?thesis by (rule raise1)
next
  case (Reenter s1)
  then have "iteration w el s = Reenter s1"
    by (simp add: iteration_def)
  with Reenter show ?thesis by (rule reenter1)
next
  case (Ok r)
  obtain e1 qs s1 where r: "r = ((e1, qs), s1)"
    by (metis surj_pair)
  obtain e2 s2 where p: "persistHead w e1 qs s1 = (e2, s2)"
    by (metis surj_pair)
  show ?thesis
  proof (cases "dispatch w e2 s2")
    case (Raise f s3)
    with Ok r p have "iteration w el s = Raise f s3"
      by (simp add: iteration_def)
    with Ok r p Raise show ?thesis
      using raise2 by blast
  next
    case (Reenter s3)
    with Ok r p have "iteration w el s = Reenter s3"
      by (simp add: iteration_def)
    with Ok r p Reenter show ?thesis
      using reenter2 by blast
  next
    case d: (Ok r2)
    obtain st s3 where r2: "r2 = (st, s3)"
      by (metis surj_pair)
    with Ok r p d have "iteration w el s = Ok (retire w e2 st s3)"
      by (simp add: iteration_def)
    with Ok r p d r2 show ?thesis
      using ok by blast
  qed
qed

text \<open>From the start of an iteration to the state in which the operation has answered.\<close>

lemma before_retire_preserved:
  assumes "resolveSize w el s = Ok ((e1, qs), s1)" "persistHead w e1 qs s1 = (e2, s2)"
  shows "preserved s (result_state (dispatch w e2 s2))"
proof -
  from assms(1) resolveSize_preserved [of s w el] have "preserved s s1"
    by simp
  moreover from assms(2) persistHead_preserved [of s1 w e1 qs] have "preserved s1 s2"
    by simp
  ultimately show ?thesis
    using dispatch_preserved preserved_trans by blast
qed

lemma before_retire_queue_distinct:
  assumes "resolveSize w el s = Ok ((e1, qs), s1)" "persistHead w e1 qs s1 = (e2, s2)"
    and "queue_distinct s" "getFirstQueueElement s = Some el"
  shows "queue_distinct (result_state (dispatch w e2 s2))"
proof -
  from resolveSize_Ok [OF assms(1)] obtain sz where qs: "qs = get_queue s" and e1: "e1 = with_size sz el"
    by blast
  from assms(2) have e2: "e2 = e1\<lparr>startTime := now w (tick s1)\<rparr>"
    and s2: "get_queue s2 = set_first e2 qs"
    by (auto simp: persistHead_eq)
  from e1 e2 have "name_of e2 = name_of el"
    by (simp add: name_of_def with_size_def)
  from names_set_first [OF assms(4) this] s2 qs assms(3) have "queue_distinct s2"
    by (simp add: queue_distinct_def)
  then show ?thesis
    by (rule dispatch_queue_distinct)
qed

lemma iteration_preserved:
  "queueState (step_state (iteration w el s)) = queueState s"
  "tick s \<le> tick (step_state (iteration w el s))"
proof -
  have "queueState (step_state (iteration w el s)) = queueState s \<and>
        tick s \<le> tick (step_state (iteration w el s))"
  proof (cases w el s rule: iteration_cases)
    case (raise1 f s1)
    with resolveSize_preserved [of s w el] show ?thesis
      by (simp add: preserved_def)
  next
    case (reenter1 s1)
    with resolveSize_preserved [of s w el] show ?thesis
      by (simp add: preserved_def)
  next
    case (raise2 e1 qs s1 e2 s2 f s3)
    with before_retire_preserved [OF raise2(1,2)] show ?thesis
      by (simp add: preserved_def)
  next
    case (reenter2 e1 qs s1 e2 s2 s3)
    with before_retire_preserved [OF reenter2(1,2)] show ?thesis
      by (simp add: preserved_def)
  next
    case (ok e1 qs s1 e2 s2 st s3)
    with before_retire_preserved [OF ok(1,2)] show ?thesis
      by (simp add: preserved_def)
  qed
  then show "queueState (step_state (iteration w el s)) = queueState s"
    and "tick s \<le> tick (step_state (iteration w el s))"
    by simp_all
qed

lemma finished_distinct_preserved:
  "preserved s s1 \<Longrightarrow> finished_distinct s \<Longrightarrow> finished_distinct s1"
  by (simp add: preserved_def finished_distinct_def get_finished_def)

lemma iteration_finished_distinct:
  assumes "finished_distinct s"
  shows "finished_distinct (step_state (iteration w el s))"
proof (cases w el s rule: iteration_cases)
  case (raise1 f s1)
  with resolveSize_preserved [of s w el] assms show ?thesis
    by (simp add: finished_distinct_preserved)
next
  case (reenter1 s1)
  with resolveSize_preserved [of s w el] assms show ?thesis
    by (simp add: finished_distinct_preserved)
next
  case (raise2 e1 qs s1 e2 s2 f s3)
  with before_retire_preserved [OF raise2(1,2)] assms show ?thesis
    by (simp add: finished_distinct_preserved)
next
  case (reenter2 e1 qs s1 e2 s2 s3)
  with before_retire_preserved [OF reenter2(1,2)] assms show ?thesis
    by (simp add: finished_distinct_preserved)
next
  case (ok e1 qs s1 e2 s2 st s3)
  from before_retire_preserved [OF ok(1,2)] ok(3) assms have "finished_distinct s3"
    by (simp add: finished_distinct_preserved)
  with ok(4) show ?thesis
    by (simp add: retire_finished_distinct)
qed

lemma iteration_queue_distinct:
  assumes "queue_distinct s" "getFirstQueueElement s = Some el"
  shows "queue_distinct (step_state (iteration w el s))"
proof (cases w el s rule: iteration_cases)
  case (raise1 f s1)
  with resolveSize_queue_distinct [OF assms(1), of w el] show ?thesis
    by simp
next
  case (reenter1 s1)
  with resolveSize_queue_distinct [OF assms(1), of w el] show ?thesis
    by simp
next
  case (raise2 e1 qs s1 e2 s2 f s3)
  with before_retire_queue_distinct [OF raise2(1,2) assms] show ?thesis
    by simp
next
  case (reenter2 e1 qs s1 e2 s2 s3)
  with before_retire_queue_distinct [OF reenter2(1,2) assms] show ?thesis
    by simp
next
  case (ok e1 qs s1 e2 s2 st s3)
  from before_retire_queue_distinct [OF ok(1,2) assms] ok(3) have "queue_distinct s3"
    by simp
  with ok(4) show ?thesis
    by (simp add: retire_queue_distinct)
qed

lemma iteration_running:
  assumes "queueState s = Running"
  shows "iteration w el s \<noteq> Reenter s'"
proof (cases w el s rule: iteration_cases)
  case (raise1 f s1)
  then show ?thesis by simp
next
  case (reenter1 s1)
  with resolveSize_running [OF assms] show ?thesis
    by blast
next
  case (raise2 e1 qs s1 e2 s2 f s3)
  then show ?thesis by simp
next
  case (reenter2 e1 qs s1 e2 s2 s3)
  from resolveSize_preserved [of s w el] reenter2(1) assms have "queueState s1 = Running"
    by (simp add: preserved_def)
  with persistHead_preserved [of s1 w e1 qs] reenter2(2) have "queueState s2 = Running"
    by (simp add: preserved_def)
  with dispatch_running reenter2(3) show ?thesis
    by blast
next
  case (ok e1 qs s1 e2 s2 st s3)
  then show ?thesis by simp
qed


lemma loop_finished_distinct:
  assumes "finished_distinct s"
  shows "finished_distinct (state_of (loop n w elo s))"
  using assms
proof (induction n w elo s rule: loop.induct)
  case (1 n w s)
  then show ?case
    by (simp add: finished_distinct_def)
next
  case (2 w element s)
  then show ?case by simp
next
  case (3 n w element s)
  have f: "finished_distinct (step_state (iteration w element s))"
    using iteration_finished_distinct [OF "3.prems"] .
  show ?case
  proof (cases "iteration w element s")
    case (Ok s1)
    with f "3.IH" [OF Ok] show ?thesis
      by simp
  next
    case (Raise f' s1)
    with f show ?thesis by simp
  next
    case (Reenter s1)
    with f show ?thesis by simp
  qed
qed

lemma loop_Completed:
  "getFirstQueueElement s = elo \<Longrightarrow> loop n w elo s = Completed s' \<Longrightarrow>
     queueState s' = Idle \<and> getFirstQueueElement s' = None"
proof (induction n w elo s rule: loop.induct)
  case (1 n w s)
  then show ?case
    by (auto simp: getFirstQueueElement_def)
next
  case (2 w element s)
  then show ?case by simp
next
  case (3 n w element s)
  then show ?case
    by (cases "iteration w element s") simp_all
qed

lemma loop_running:
  "queueState s = Running \<Longrightarrow> elo \<noteq> None \<Longrightarrow>
     (\<forall>f s'. loop n w elo s = Faulted f s' \<longrightarrow> queueState s' = Running) \<and>
     (\<forall>s'. loop n w elo s = OutOfFuel s' \<longrightarrow> queueState s' = Running) \<and>
     (\<forall>s'. loop n w elo s \<noteq> Reentered s')"
proof (induction n w elo s rule: loop.induct)
  case (1 n w s)
  then show ?case by simp
next
  case (2 w element s)
  then show ?case by simp
next
  case (3 n w element s)
  show ?case
  proof (cases "iteration w element s")
    case (Ok s1)
    with iteration_preserved(1) [of w element s] "3.prems" have r: "queueState s1 = Running"
      by simp
    show ?thesis
    proof (cases "getFirstQueueElement s1")
      case None
      with Ok show ?thesis by simp
    next
      case (Some e')
      with "3.IH" [OF Ok r] Ok show ?thesis
        by simp
    qed
  next
    case (Raise f' s1)
    with iteration_preserved(1) [of w element s] "3.prems" show ?thesis
      by simp
  next
    case (Reenter s1)
    with iteration_running [OF "3.prems"(1)] show ?thesis
      by blast
  qed
qed


subsection \<open>The exported functions keep both lists free of duplicates\<close>

lemma getFirstQueueElement_queueState [simp]:
  "getFirstQueueElement (s\<lparr>queueState := x\<rparr>) = getFirstQueueElement s"
  by (simp add: getFirstQueueElement_def)

lemma distinct_queueState [simp]:
  "queue_distinct (s\<lparr>queueState := x\<rparr>) = queue_distinct s"
  "finished_distinct (s\<lparr>queueState := x\<rparr>) = finished_distinct s"
  by (simp_all add: queue_distinct_def finished_distinct_def)


lemma initQueue_finished_distinct:
  "finished_distinct s \<Longrightarrow> finished_distinct (state_of (initQueue n w s))"
  by (simp add: initQueue_def Let_def loop_finished_distinct)

lemma finished_distinct_addToQueue_sync [simp]:
  "finished_distinct (addToQueue_sync eo s) = finished_distinct s"
  by (simp add: finished_distinct_def)

lemma finished_distinct_removeFromQueue [simp]:
  "finished_distinct (removeFromQueue a s) = finished_distinct s"
  by (simp add: finished_distinct_def)


lemma addToQueue_finished_distinct:
  "finished_distinct s \<Longrightarrow> finished_distinct (state_of (addToQueue n w eo s))"
  by (cases eo) (simp_all add: addToQueue_def Let_def initQueue_finished_distinct)


lemma perform_finished_distinct:
  "finished_distinct s \<Longrightarrow> finished_distinct (perform n w x s)"
  by (cases x) (simp_all add: addToQueue_finished_distinct initQueue_finished_distinct)


lemma perform_all_finished_distinct:
  "finished_distinct s \<Longrightarrow> finished_distinct (perform_all n w xs s)"
  by (induction xs arbitrary: s) (simp_all add: perform_finished_distinct)


lemma addToQueue_elements_absent:
  "name_of t \<notin> set (names elements) \<Longrightarrow> addToQueue_elements t elements = elements @ [t]"
  by (simp add: addToQueue_elements_def same_app_eq not_in_names)

lemma addToFinished_elements_present:
  assumes "name_of t \<in> set (names elements)"
  shows "\<exists>i<length elements. name_of (elements ! i) = name_of t \<and>
           (\<forall>j<i. name_of (elements ! j) \<noteq> name_of t) \<and>
           addToFinished_elements t sto elements =
             elements[i := t\<lparr>status := Some (case sto of None \<Rightarrow> Abort | Some x \<Rightarrow> x)\<rparr>]"
  using in_names_first [OF assms]
  by (auto simp: addToFinished_elements_def same_app_eq)

lemma addToFinished_elements_absent:
  "name_of t \<notin> set (names elements) \<Longrightarrow>
     addToFinished_elements t sto elements = elements @ [t\<lparr>status := sto\<rparr>]"
  by (simp add: addToFinished_elements_def same_app_eq not_in_names)

subsection \<open>Finished history\<close>

text \<open>
  C3. \<^verbatim>\<open>addToFinished\<close> with a status of type \<^verbatim>\<open>DMStatus\<close>: when the history has an
  entry with the task's appName, the first such entry is overwritten in place by the
  task carrying that status; otherwise the task with that status is appended. In the
  loop the status passed is the one the dispatched operation returned. A history
  without duplicate appNames stays so under \<^verbatim>\<open>addToFinished\<close> (with any status, a
  nullish one included) and under every sequence of calls of the exported functions.
\<close>

theorem addToFinished_deduplicates:
  "(name_of element \<in> set (names (get_finished s)) \<longrightarrow>
      (\<exists>i<length (get_finished s).
         name_of (get_finished s ! i) = name_of element \<and>
         (\<forall>j<i. name_of (get_finished s ! j) \<noteq> name_of element) \<and>
         get_finished (addToFinished element (Some st) s) =
           (get_finished s)[i := element\<lparr>status := Some st\<rparr>]))
   \<and> (name_of element \<notin> set (names (get_finished s)) \<longrightarrow>
      get_finished (addToFinished element (Some st) s) =
        get_finished s @ [element\<lparr>status := Some st\<rparr>])
   \<and> (resolveSize w el s = Ok ((e1, qs), s1) \<and> persistHead w e1 qs s1 = (e2, s2) \<and>
       dispatch w e2 s2 = Ok (sto, s3) \<longrightarrow>
      (\<exists>s4. iteration w el s = Ok s4 \<and>
         get_finished s4 =
           get_finished (addToFinished (e2\<lparr>endTime := now w (tick s3)\<rparr>) sto s3)))
   \<and> (finished_distinct s \<longrightarrow> finished_distinct (addToFinished element sto s))
   \<and> (finished_distinct s \<longrightarrow> finished_distinct (perform_all n w ops s))"
proof (intro conjI impI)
  assume a: "name_of element \<in> set (names (get_finished s))"
  from addToFinished_elements_present [OF a, of "Some st"]
  show "\<exists>i<length (get_finished s).
         name_of (get_finished s ! i) = name_of element \<and>
         (\<forall>j<i. name_of (get_finished s ! j) \<noteq> name_of element) \<and>
         get_finished (addToFinished element (Some st) s) =
           (get_finished s)[i := element\<lparr>status := Some st\<rparr>]"
    by simp
next
  assume "name_of element \<notin> set (names (get_finished s))"
  then show "get_finished (addToFinished element (Some st) s) =
        get_finished s @ [element\<lparr>status := Some st\<rparr>]"
    by (simp add: addToFinished_elements_absent)
next
  assume "resolveSize w el s = Ok ((e1, qs), s1) \<and> persistHead w e1 qs s1 = (e2, s2) \<and>
       dispatch w e2 s2 = Ok (sto, s3)"
  then have "iteration w el s = Ok (retire w e2 sto s3)"
    by (simp add: iteration_def)
  then show "\<exists>s4. iteration w el s = Ok s4 \<and>
         get_finished s4 =
           get_finished (addToFinished (e2\<lparr>endTime := now w (tick s3)\<rparr>) sto s3)"
    by simp
next
  assume "finished_distinct s"
  then show "finished_distinct (addToFinished element sto s)"
    by (simp add: finished_distinct_def names_addToFinished_elements)
next
  assume "finished_distinct s"
  then show "finished_distinct (perform_all n w ops s)"
    by (rule perform_all_finished_distinct)
qed


theorem addToFinished_deduplicates_witness:
  "get_finished (addToFinished (task ''G1'' ''gog'' ''install'') (Some Error)
      (state_with None (Some [(task ''G1'' ''gog'' ''update'')\<lparr>status := Some Done\<rparr>]) Idle))
     = [(task ''G1'' ''gog'' ''install'')\<lparr>status := Some Error\<rparr>]
   \<and> get_finished (addToFinished (task ''G1'' ''gog'' ''install'') (Some Error)
      (state_with None None Idle))
     = [(task ''G1'' ''gog'' ''install'')\<lparr>status := Some Error\<rparr>]
   \<and> map status (get_finished (step_state (iteration
        (simple_world (Inr None) (Inr (Some Abort)) (\<lambda>t. []))
        (task ''G1'' ''hyperplay'' ''install'')
        (state_with (Some [task ''G1'' ''hyperplay'' ''install'']) None Running))))
     = [Some Abort]
   \<and> finished_distinct (addToFinished (task ''G1'' ''gog'' ''install'') None
        (state_with None (Some [(task ''G1'' ''gog'' ''update'')\<lparr>status := Some Done\<rparr>]) Idle))
   \<and> finished_distinct (perform_all 5 (simple_world (Inr None) (Inr (Some Done)) (\<lambda>t. []))
        [AddToQueue (Some (task ''G1'' ''gog'' ''update'')), InitQueue]
        (state_with None (Some [(task ''G1'' ''gog'' ''update'')\<lparr>status := Some Done\<rparr>]) Idle))"
proof -
  let ?w = "simple_world (Inr None) (Inr (Some Abort)) (\<lambda>t. [])"
  let ?el = "task ''G1'' ''hyperplay'' ''install''"
  let ?s = "state_with (Some [?el]) None Running"
  let ?e1 = "with_size ''?? MB'' ?el"
  let ?s1 = "emit [Frontend (changedDMQueueInformation [?el])] ?s"
  let ?e2 = "?e1\<lparr>startTime := 0\<rparr>"
  let ?s2 = "emit [StoreSet ''queue''] (?s1\<lparr>store_queue := Some [?e2]\<rparr>)"
  let ?s3 = "(emit [Call (DownloadGame ''G1'')] ?s2)\<lparr>tick := 1\<rparr>"
  let ?f = "state_with None (Some [(task ''G1'' ''gog'' ''update'')\<lparr>status := Some Done\<rparr>]) Idle"
  have 1: "get_finished (addToFinished (task ''G1'' ''gog'' ''install'') (Some Error) ?f)
     = [(task ''G1'' ''gog'' ''install'')\<lparr>status := Some Error\<rparr>]"
    using addToFinished_deduplicates [where element = "task ''G1'' ''gog'' ''install''"
        and s = ?f and st = Error]
    by (simp add: state_with_def initial_state_def task_def names_def name_of_def
          get_finished_def)
  have 2: "get_finished (addToFinished (task ''G1'' ''gog'' ''install'') (Some Error)
      (state_with None None Idle))
     = [(task ''G1'' ''gog'' ''install'')\<lparr>status := Some Error\<rparr>]"
    using addToFinished_deduplicates [where element = "task ''G1'' ''gog'' ''install''"
        and s = "state_with None None Idle" and st = Error]
    by (simp add: state_with_def initial_state_def task_def names_def name_of_def
          get_finished_def)
  have r: "resolveSize ?w ?el ?s = Ok ((?e1, [?el]), ?s1)"
    by (simp add: resolveSize_def Let_def manifest_runner_def task_def state_with_def
          initial_state_def get_queue_def)
  have p: "persistHead ?w ?e1 [?el] ?s1 = (?e2, ?s2)"
    by (simp add: persistHead_def Let_def set_first_def simple_world_def state_with_def
          initial_state_def emit_def)
  have d: "dispatch ?w ?e2 ?s2 = Ok (Some Abort, ?s3)"
    by (simp add: dispatch_def manifest_runner_def await_def suspend_def simple_world_def
          task_def with_size_def state_with_def initial_state_def emit_def)
  have "\<exists>s4. iteration ?w ?el ?s = Ok s4 \<and>
          get_finished s4 =
            get_finished (addToFinished (?e2\<lparr>endTime := now ?w (tick ?s3)\<rparr>) (Some Abort) ?s3)"
    using addToFinished_deduplicates [where w = ?w and el = ?el and s = ?s and ?e1.0 = ?e1
        and qs = "[?el]" and ?s1.0 = ?s1 and ?e2.0 = ?e2 and ?s2.0 = ?s2
        and sto = "Some Abort" and ?s3.0 = ?s3] r p d
    by blast
  then have 3: "map status (get_finished (step_state (iteration ?w ?el ?s))) = [Some Abort]"
    by (auto simp: addToFinished_elements_def state_with_def initial_state_def
          get_finished_def)
  have 4: "finished_distinct (perform_all 5 (simple_world (Inr None) (Inr (Some Done)) (\<lambda>t. []))
        [AddToQueue (Some (task ''G1'' ''gog'' ''update'')), InitQueue] ?f)"
    using addToFinished_deduplicates [where s = ?f and n = 5
        and w = "simple_world (Inr None) (Inr (Some Done)) (\<lambda>t. [])"
        and ops = "[AddToQueue (Some (task ''G1'' ''gog'' ''update'')), InitQueue]"]
    by (simp add: finished_distinct_def state_with_def initial_state_def task_def names_def
          name_of_def get_finished_def)
  have 5: "finished_distinct (addToFinished (task ''G1'' ''gog'' ''install'') None ?f)"
    using addToFinished_deduplicates [where s = ?f and element = "task ''G1'' ''gog'' ''install''"
        and sto = None]
    by (simp add: finished_distinct_def state_with_def initial_state_def task_def names_def
          name_of_def get_finished_def)
  from 1 2 3 4 5 show ?thesis
    by simp
qed

subsection \<open>Outcome of the dispatched operation\<close>

lemma addToFinished_elements_entry:
  "\<exists>x\<in>set (addToFinished_elements t (Some st) elements).
     name_of x = name_of t \<and> status x = Some st"
proof (cases "name_of t \<in> set (names elements)")
  case True
  from addToFinished_elements_present [OF True, of "Some st"]
  obtain i where i: "i < length elements"
    and e: "addToFinished_elements t (Some st) elements = elements[i := t\<lparr>status := Some st\<rparr>]"
    by auto
  from i have "t\<lparr>status := Some st\<rparr> \<in> set (elements[i := t\<lparr>status := Some st\<rparr>])"
    by (rule set_update_memI)
  moreover have "name_of (t\<lparr>status := Some st\<rparr>) = name_of t \<and>
      status (t\<lparr>status := Some st\<rparr>) = Some st"
    by (simp add: name_of_def)
  ultimately show ?thesis
    unfolding e by blast
next
  case False
  then show ?thesis
    by (simp add: addToFinished_elements_absent name_of_def)
qed



lemma initQueue_Completed:
  "initQueue n w s = Completed s' \<Longrightarrow> get_queue s' = [] \<and> queueState s' = Idle"
proof -
  assume "initQueue n w s = Completed s'"
  then have "loop n w (getFirstQueueElement s)
      (s\<lparr>queueState := (if getFirstQueueElement s \<noteq> None then Running else Idle)\<rparr>) = Completed s'"
    by (simp add: initQueue_def Let_def)
  from loop_Completed [OF _ this] have "queueState s' = Idle \<and> getFirstQueueElement s' = None"
    by simp
  then show ?thesis
    by (cases "get_queue s'") (simp_all add: getFirstQueueElement_def)
qed








subsection \<open>Size lookup\<close>

lemma suspend_running_frame:
  assumes "queueState s = Running"
  obtains s1 where "suspend w s = Some s1" "store_finished s1 = store_finished s"
    "queueState s1 = Running" "operations (trace s1) = operations (trace s)"
    "tick s1 = Suc (tick s)"
proof -
  from suspend_running [OF assms] obtain s1 where s1: "suspend w s = Some s1"
    by blast
  from suspend_frame [OF s1] assms s1 that show ?thesis
    by simp
qed

subsection \<open>Iterations in a world that does not throw\<close>

lemma await_quiet:
  "arrivals w (tick s) = [] \<Longrightarrow> await w (Inr v) s = Ok (v, s\<lparr>tick := Suc (tick s)\<rparr>)"
  by (simp add: await_def suspend_def)

lemma await_arrival:
  "arrivals w (tick s) = [Enqueue d] \<Longrightarrow> queueState s = Running \<Longrightarrow>
     await w (Inr v) s = Ok (v, addToQueue_sync (Some d) (s\<lparr>tick := Suc (tick s)\<rparr>))"
  by (simp add: await_def suspend_def Let_def)

lemma with_size_fields [simp]:
  "appName (params (with_size sz el)) = appName (params el)"
  "runner (params (with_size sz el)) = runner (params el)"
  "platformToInstall (params (with_size sz el)) = platformToInstall (params el)"
  "type (with_size sz el) = type el"
  by (simp_all add: with_size_def)

lemma awaited_started [simp]:
  "awaited ((with_size sz el)\<lparr>startTime := t\<rparr>) = awaited el"
  by (simp add: awaited_def)

lemma name_of_started [simp]:
  "name_of ((with_size sz el)\<lparr>startTime := t\<rparr>) = name_of el"
  by (simp add: name_of_def)

lemma dispatch_shape:
  assumes "no_raise w"
  shows "(\<not> awaited el \<and> dispatch w el s = Ok (Some Error, s)) \<or>
         (awaited el \<and> (\<exists>v c. dispatch w el s = await w (Inr v) (emit [Call c] s)))"
proof -
  from assms obtain v1 v2 v3 where
    "installQueueElement w (tick s) (params el) = Inr v1"
    "updateQueueElement w (tick s) (params el) = Inr v2"
    "downloadGame w (tick s) (appName (params el)) = Inr v3"
    unfolding no_raise_def by metis
  then show ?thesis
    by (auto simp: dispatch_def awaited_def)
qed

lemma resolveSize_quiet:
  assumes "no_raise w" "manifest_runner (runner (params el)) \<longrightarrow> arrivals w (tick s) = []"
  shows "\<exists>sz s1. resolveSize w el s = Ok ((with_size sz el, get_queue s), s1) \<and>
           preserved s s1 \<and> store_queue s1 = store_queue s \<and> tick s1 = op_tick el s"
proof (cases "manifest_runner (runner (params el))")
  case False
  then have "resolveSize w el s =
      Ok ((with_size ''?? MB'' el, get_queue s),
          emit [Frontend (changedDMQueueInformation (get_queue s))] s)"
    by (simp add: resolveSize_def Let_def)
  moreover have "preserved s (emit [Frontend (changedDMQueueInformation (get_queue s))] s)"
    by (simp add: preserved_def)
  ultimately show ?thesis
    using False by (auto simp: op_tick_def)
next
  case True
  from assms(1) obtain v where
    v: "getInstallInfo w (tick s) (appName (params el)) (runner (params el))
          (platformToInstall (params el)) = Inr v"
    unfolding no_raise_def by metis
  let ?s2 = "emit [Call (GetInstallInfo (appName (params el)) (runner (params el))
                   (platformToInstall (params el)))]
               (emit [Frontend (changedDMQueueInformation (get_queue s))] s)"
  from True assms(2) have "arrivals w (tick ?s2) = []"
    by simp
  from await_quiet [OF this, of v] True v
  have "resolveSize w el s =
      Ok ((with_size (size_text w v) el, get_queue s), ?s2\<lparr>tick := Suc (tick ?s2)\<rparr>)"
    by (simp add: resolveSize_def Let_def)
  moreover have "preserved s (?s2\<lparr>tick := Suc (tick ?s2)\<rparr>)"
    by (simp add: preserved_def)
  ultimately show ?thesis
    using True by (auto simp: op_tick_def)
qed

lemma removeFromQueue_head:
  "get_queue s = e # rest \<Longrightarrow> name_of e \<noteq> [] \<Longrightarrow>
     get_queue (removeFromQueue (name_of e) s) = rest"
  by (simp add: removeFromQueue_get_queue splice1_def)

lemma retire_head:
  assumes "get_queue s = e # rest" "name_of e \<noteq> []"
  shows "get_queue (retire w e st s) = rest"
proof -
  from assms(1) have "get_queue (addToFinished (e\<lparr>endTime := now w (tick s)\<rparr>) st s) = e # rest"
    by simp
  from removeFromQueue_head [OF this assms(2)] show ?thesis
    by (simp add: retire_eq name_of_def)
qed

lemma get_queue_Cons_store: "get_queue s = e # rest \<Longrightarrow> store_queue s = Some (e # rest)"
  by (cases "store_queue s") (simp_all add: get_queue_def)

lemma get_queue_of_store: "store_queue s1 = store_queue s \<Longrightarrow> get_queue s1 = get_queue s"
  by (simp add: get_queue_def)

lemma quiet_iteration:
  assumes "no_raise w" "get_queue s = el # rest" "name_of el \<noteq> []"
    and "\<forall>t\<ge>tick s. arrivals w t = []"
  shows "\<exists>s1. iteration w el s = Ok s1 \<and> get_queue s1 = rest \<and>
           retired (trace s1) = retired (trace s) @ [name_of el] \<and>
           queueState s1 = queueState s \<and> tick s \<le> tick s1"
proof -
  from assms(4) have "manifest_runner (runner (params el)) \<longrightarrow> arrivals w (tick s) = []"
    by simp
  from resolveSize_quiet [OF assms(1) this] obtain sz s1 where
    r: "resolveSize w el s = Ok ((with_size sz el, get_queue s), s1)"
    and p1: "preserved s s1"
    by blast
  let ?e2 = "(with_size sz el)\<lparr>startTime := now w (tick s1)\<rparr>"
  let ?s2 = "emit [StoreSet ''queue''] (s1\<lparr>store_queue := Some (set_first ?e2 (get_queue s))\<rparr>)"
  have p: "persistHead w (with_size sz el) (get_queue s) s1 = (?e2, ?s2)"
    by (simp add: persistHead_eq)
  from p1 have p2: "preserved s ?s2"
    by (simp add: preserved_def)
  from assms(2) have q2: "get_queue ?s2 = ?e2 # rest"
    by (simp add: set_first_def)
  from p2 assms(4) have a2: "arrivals w (tick ?s2) = []"
    by (simp add: preserved_def)
  have "\<exists>st s3. dispatch w ?e2 ?s2 = Ok (st, s3) \<and> preserved ?s2 s3 \<and> get_queue s3 = ?e2 # rest"
  proof -
    from dispatch_shape [OF assms(1), of ?e2 ?s2] show ?thesis
    proof
      assume "\<not> awaited ?e2 \<and> dispatch w ?e2 ?s2 = Ok (Some Error, ?s2)"
      with q2 show ?thesis
        by simp
    next
      assume "awaited ?e2 \<and> (\<exists>v c. dispatch w ?e2 ?s2 = await w (Inr v) (emit [Call c] ?s2))"
      then obtain v c where d: "dispatch w ?e2 ?s2 = await w (Inr v) (emit [Call c] ?s2)"
        by blast
      from a2 have "arrivals w (tick (emit [Call c] ?s2)) = []"
        by simp
      from await_quiet [OF this, of v] d
      have "dispatch w ?e2 ?s2 = Ok (v, (emit [Call c] ?s2)\<lparr>tick := Suc (tick ?s2)\<rparr>)"
        by simp
      moreover have "preserved ?s2 ((emit [Call c] ?s2)\<lparr>tick := Suc (tick ?s2)\<rparr>)"
        by (simp add: preserved_def)
      moreover from q2 have "get_queue ((emit [Call c] ?s2)\<lparr>tick := Suc (tick ?s2)\<rparr>) = ?e2 # rest"
        by simp
      ultimately show ?thesis
        by blast
    qed
  qed
  then obtain st s3 where d: "dispatch w ?e2 ?s2 = Ok (st, s3)" and p3: "preserved ?s2 s3"
    and q3: "get_queue s3 = ?e2 # rest"
    by blast
  from r p d have i: "iteration w el s = Ok (retire w ?e2 st s3)"
    by (simp add: iteration_def)
  from assms(3) have "name_of ?e2 \<noteq> []"
    by simp
  from retire_head [OF q3 this] have q4: "get_queue (retire w ?e2 st s3) = rest" .
  from preserved_trans [OF p2 p3] have "preserved s s3" .
  then have "retired (trace (retire w ?e2 st s3)) = retired (trace s) @ [name_of el]"
    and "queueState (retire w ?e2 st s3) = queueState s"
    and "tick s \<le> tick (retire w ?e2 st s3)"
    by (simp_all add: preserved_def)
  with i q4 show ?thesis
    by blast
qed

lemma names_Cons [simp]: "names (e # rest) = name_of e # names rest"
  by (simp add: names_def)

lemma names_Nil [simp]: "names [] = []"
  by (simp add: names_def)

lemma names_append [simp]: "names (xs @ ys) = names xs @ names ys"
  by (simp add: names_def)

lemma quiet_loop:
  assumes "no_raise w"
  shows "\<forall>t\<ge>tick s. arrivals w t = [] \<Longrightarrow> [] \<notin> set (names (get_queue s)) \<Longrightarrow>
     length (get_queue s) \<le> n \<Longrightarrow>
     \<exists>s'. loop n w (getFirstQueueElement s) s = Completed s' \<and>
          retired (trace s') = retired (trace s) @ names (get_queue s)"
proof (induction n arbitrary: s)
  case 0
  then show ?case
    by (simp add: getFirstQueueElement_def)
next
  case (Suc n)
  show ?case
  proof (cases "get_queue s")
    case Nil
    then show ?thesis
      by (simp add: getFirstQueueElement_def)
  next
    case (Cons el rest)
    with Suc.prems(2) have ne: "name_of el \<noteq> []"
      by auto
    from quiet_iteration [OF assms Cons ne Suc.prems(1)] obtain s1 where
      i: "iteration w el s = Ok s1" and q1: "get_queue s1 = rest"
      and r1: "retired (trace s1) = retired (trace s) @ [name_of el]"
      and t1: "tick s \<le> tick s1"
      by blast
    from t1 Suc.prems(1) have a1: "\<forall>t\<ge>tick s1. arrivals w t = []"
      by simp
    from q1 Cons Suc.prems(2) have n1: "[] \<notin> set (names (get_queue s1))"
      by auto
    from q1 Cons Suc.prems(3) have l1: "length (get_queue s1) \<le> n"
      by simp
    from Suc.IH [OF a1 n1 l1] obtain s' where
      "loop n w (getFirstQueueElement s1) s1 = Completed s'"
      "retired (trace s') = retired (trace s1) @ names (get_queue s1)"
      by blast
    with i r1 q1 Cons show ?thesis
      by (simp add: getFirstQueueElement_def)
  qed
qed

subsection \<open>A task enqueued while the loop awaits an operation\<close>

lemma arrival_iteration:
  assumes "no_raise w" "queueState s = Running" "get_queue s = el # rest" "awaited el"
    and "name_of el \<noteq> []" "name_of d \<notin> set (names (el # rest))"
    and "\<forall>t. arrivals w t = (if t = op_tick el s then [Enqueue d] else [])"
  shows "\<exists>s1. iteration w el s = Ok s1 \<and> get_queue s1 = rest @ [d] \<and>
           retired (trace s1) = retired (trace s) @ [name_of el] \<and>
           queueState s1 = Running \<and> op_tick el s < tick s1"
proof -
  from assms(7) have "manifest_runner (runner (params el)) \<longrightarrow> arrivals w (tick s) = []"
    by (simp add: op_tick_def)
  from resolveSize_quiet [OF assms(1) this] obtain sz s1 where
    r: "resolveSize w el s = Ok ((with_size sz el, get_queue s), s1)"
    and p1: "preserved s s1" and t1: "tick s1 = op_tick el s"
    by blast
  let ?e2 = "(with_size sz el)\<lparr>startTime := now w (tick s1)\<rparr>"
  let ?s2 = "emit [StoreSet ''queue''] (s1\<lparr>store_queue := Some (set_first ?e2 (get_queue s))\<rparr>)"
  have p: "persistHead w (with_size sz el) (get_queue s) s1 = (?e2, ?s2)"
    by (simp add: persistHead_eq)
  from p1 have p2: "preserved s ?s2"
    by (simp add: preserved_def)
  from assms(3) have q2: "get_queue ?s2 = ?e2 # rest"
    by (simp add: set_first_def)
  from t1 assms(7) have a2: "arrivals w (tick ?s2) = [Enqueue d]"
    by simp
  from p2 assms(2) have run2: "queueState ?s2 = Running"
    by (simp add: preserved_def)
  from assms(4) have "awaited ?e2"
    by simp
  with dispatch_shape [OF assms(1), of ?e2 ?s2] obtain v c where
    d: "dispatch w ?e2 ?s2 = await w (Inr v) (emit [Call c] ?s2)"
    by blast
  let ?s3 = "addToQueue_sync (Some d) ((emit [Call c] ?s2)\<lparr>tick := Suc (tick ?s2)\<rparr>)"
  from a2 have "arrivals w (tick (emit [Call c] ?s2)) = [Enqueue d]"
    by simp
  moreover from run2 have "queueState (emit [Call c] ?s2) = Running"
    by simp
  ultimately have "await w (Inr v) (emit [Call c] ?s2) = Ok (v, ?s3)"
    using await_arrival [of w "emit [Call c] ?s2" d v] by simp
  with d have d3: "dispatch w ?e2 ?s2 = Ok (v, ?s3)"
    by simp
  from assms(6) have "name_of d \<notin> set (names (?e2 # rest))"
    by simp
  then have "addToQueue_elements d (?e2 # rest) = (?e2 # rest) @ [d]"
    by (rule addToQueue_elements_absent)
  with q2 have q3: "get_queue ?s3 = ?e2 # (rest @ [d])"
    by simp
  have p3: "preserved ?s2 ?s3"
    by (simp add: preserved_def)
  from r p d3 have i: "iteration w el s = Ok (retire w ?e2 v ?s3)"
    by (simp add: iteration_def)
  from assms(5) have "name_of ?e2 \<noteq> []"
    by simp
  from retire_head [OF q3 this] have q4: "get_queue (retire w ?e2 v ?s3) = rest @ [d]" .
  from preserved_trans [OF p2 p3] have "preserved s ?s3" .
  with assms(2) have "retired (trace (retire w ?e2 v ?s3)) = retired (trace s) @ [name_of el]"
    and "queueState (retire w ?e2 v ?s3) = Running"
    by (simp_all add: preserved_def)
  moreover from t1 have "op_tick el s < tick (retire w ?e2 v ?s3)"
    by simp
  ultimately show ?thesis
    using i q4 by blast
qed

lemma enqueued_while_running_is_retired_last:
  assumes "no_raise w" "queueState s = Running" "getFirstQueueElement s = Some el"
    and "awaited el"
    and "distinct (names (get_queue s) @ [name_of d])"
    and "[] \<notin> set (names (get_queue s) @ [name_of d])"
    and "\<forall>t. arrivals w t = (if t = op_tick el s then [Enqueue d] else [])"
    and "length (get_queue s) < n"
  shows "\<exists>s'. loop n w (Some el) s = Completed s' \<and>
           retired (trace s') = retired (trace s) @ names (get_queue s) @ [name_of d]"
proof -
  from assms(3) obtain rest where q: "get_queue s = el # rest"
    by (cases "get_queue s") (simp_all add: getFirstQueueElement_def)
  from assms(8) obtain m where n: "n = Suc m"
    by (cases n) simp_all
  from q assms(6) have ne: "name_of el \<noteq> []"
    by auto
  from q assms(5) have fresh: "name_of d \<notin> set (names (el # rest))"
    by auto
  from arrival_iteration [OF assms(1,2) q assms(4) ne fresh assms(7)] obtain s1 where
    i: "iteration w el s = Ok s1" and q1: "get_queue s1 = rest @ [d]"
    and r1: "retired (trace s1) = retired (trace s) @ [name_of el]"
    and t1: "op_tick el s < tick s1"
    by blast
  from t1 assms(7) have a1: "\<forall>t\<ge>tick s1. arrivals w t = []"
    by simp
  from q q1 assms(6) have n1: "[] \<notin> set (names (get_queue s1))"
    by auto
  from q q1 n assms(8) have l1: "length (get_queue s1) \<le> m"
    by simp
  from quiet_loop [OF assms(1) a1 n1 l1] obtain s' where
    "loop m w (getFirstQueueElement s1) s1 = Completed s'"
    "retired (trace s') = retired (trace s1) @ names (get_queue s1)"
    by blast
  with i r1 q1 q n show ?thesis
    by simp
qed

subsection \<open>The manager state\<close>

lemma initQueue_head:
  "getFirstQueueElement s = Some el \<Longrightarrow>
     initQueue n w s = loop n w (Some el) (s\<lparr>queueState := Running\<rparr>)"
  by (simp add: initQueue_def Let_def)

lemma initQueue_empty:
  "getFirstQueueElement s = None \<Longrightarrow> initQueue n w s = Completed (s\<lparr>queueState := Idle\<rparr>)"
  by (simp add: initQueue_def Let_def)

lemma initQueue_idle_iff:
  "(queueState (state_of (initQueue n w s)) = Idle) = (\<exists>s'. initQueue n w s = Completed s')"
proof (cases "getFirstQueueElement s")
  case None
  then show ?thesis
    by (simp add: initQueue_empty)
next
  case (Some el)
  have run: "queueState (s\<lparr>queueState := Running\<rparr>) = Running"
    by simp
  from loop_running [OF run, of "Some el" n w]
  have f: "\<forall>f s'. initQueue n w s = Faulted f s' \<longrightarrow> queueState s' = Running"
    and o: "\<forall>s'. initQueue n w s = OutOfFuel s' \<longrightarrow> queueState s' = Running"
    and e: "\<forall>s'. initQueue n w s \<noteq> Reentered s'"
    by (simp_all add: initQueue_head [OF Some])
  show ?thesis
  proof (cases "initQueue n w s")
    case (Completed s')
    with initQueue_Completed [OF Completed] show ?thesis
      by simp
  next
    case (Faulted f' s')
    with f show ?thesis by simp
  next
    case (Reentered s')
    with e show ?thesis by simp
  next
    case (OutOfFuel s')
    with o show ?thesis by simp
  qed
qed

lemma initQueue_never_reentered: "initQueue n w s \<noteq> Reentered s'"
proof (cases "getFirstQueueElement s")
  case None
  then show ?thesis
    by (simp add: initQueue_empty)
next
  case (Some el)
  have run: "queueState (s\<lparr>queueState := Running\<rparr>) = Running"
    by simp
  from loop_running [OF run, of "Some el" n w] show ?thesis
    by (simp add: initQueue_head [OF Some])
qed

subsection \<open>The trace only grows\<close>

lemma prefix_trace_emit [simp]: "prefix (trace s) (trace (emit es s))"
  by simp

lemma prefix_trace_tick [simp]: "trace (s\<lparr>tick := t\<rparr>) = trace s"
  by simp

lemma prefix_trace_removeFromQueue: "prefix (trace s) (trace (removeFromQueue a s))"
  by (simp add: removeFromQueue_trace)

lemma prefix_trace_addToQueue_sync: "prefix (trace s) (trace (addToQueue_sync eo s))"
  by (cases eo) (simp_all add: addToQueue_sync_None)

lemma prefix_trace_serve: "serve rs s = Some s' \<Longrightarrow> prefix (trace s) (trace s')"
proof (induction rs s rule: serve.induct)
  case (1 s)
  then show ?case by simp
next
  case (2 e rs s)
  from "2.prems" have i: "queueState (addToQueue_sync (Some e) s) \<noteq> Idle"
    and r: "serve rs (addToQueue_sync (Some e) s) = Some s'"
    by (simp_all add: Let_def split: if_splits)
  from prefix_order.trans [OF prefix_trace_addToQueue_sync [of s "Some e"] "2.IH" [OF refl i r]]
  show ?case .
next
  case (3 a rs s)
  from "3.prems" have "serve rs (removeFromQueue a s) = Some s'"
    by simp
  from prefix_order.trans [OF prefix_trace_removeFromQueue [of s a] "3.IH" [OF this]]
  show ?case .
qed

lemma prefix_trace_await: "prefix (trace s) (trace (result_state (await w reply s)))"
proof (cases "suspend w s")
  case None
  then show ?thesis
    by (simp add: result_state_await)
next
  case (Some s1)
  then have "serve (arrivals w (tick s)) (s\<lparr>tick := Suc (tick s)\<rparr>) = Some s1"
    by (simp add: suspend_def)
  from prefix_trace_serve [OF this] Some show ?thesis
    by (simp add: result_state_await)
qed

lemma prefix_trace_resolveSize:
  "prefix (trace s) (trace (result_state (resolveSize w el s)))"
proof (cases "manifest_runner (runner (params el))")
  case False
  then show ?thesis
    by (simp add: resolveSize_state)
next
  case True
  let ?s2 = "emit [Call (GetInstallInfo (appName (params el)) (runner (params el))
                   (platformToInstall (params el)))]
               (emit [Frontend (changedDMQueueInformation (get_queue s))] s)"
  have a: "prefix (trace s) (trace ?s2)"
    by simp
  have b: "prefix (trace ?s2) (trace (result_state (await w
      (getInstallInfo w (tick s) (appName (params el)) (runner (params el))
         (platformToInstall (params el))) ?s2)))"
    by (rule prefix_trace_await)
  from prefix_order.trans [OF a b] True show ?thesis
    by (simp add: resolveSize_state)
qed

lemma prefix_trace_dispatch: "prefix (trace s) (trace (result_state (dispatch w el s)))"
proof -
  from dispatch_state [of w el s] show ?thesis
  proof
    assume "dispatch w el s = Ok (Some Error, s)"
    then show ?thesis by simp
  next
    assume "\<exists>reply c. dispatch w el s = await w reply (emit [Call c] s)"
    then obtain reply c where d: "dispatch w el s = await w reply (emit [Call c] s)"
      by blast
    have a: "prefix (trace s) (trace (emit [Call c] s))"
      by simp
    have b: "prefix (trace (emit [Call c] s))
        (trace (result_state (await w reply (emit [Call c] s))))"
      by (rule prefix_trace_await)
    from prefix_order.trans [OF a b] d show ?thesis
      by simp
  qed
qed

lemma prefix_trace_retire: "prefix (trace s) (trace (retire w el st s))"
proof -
  have a: "prefix (trace s) (trace (addToFinished (el\<lparr>endTime := now w (tick s)\<rparr>) st s))"
    by simp
  have b: "prefix (trace (addToFinished (el\<lparr>endTime := now w (tick s)\<rparr>) st s))
      (trace (retire w el st s))"
    unfolding retire_eq by (rule prefix_trace_removeFromQueue)
  from prefix_order.trans [OF a b] show ?thesis .
qed

lemma prefix_trace_persistHead: "prefix (trace s) (trace (snd (persistHead w e qs s)))"
  by (simp add: persistHead_eq)

lemma prefix_trace_before_retire:
  assumes "resolveSize w el s = Ok ((e1, qs), s1)" "persistHead w e1 qs s1 = (e2, s2)"
  shows "prefix (trace s) (trace (result_state (dispatch w e2 s2)))"
proof -
  from assms(1) prefix_trace_resolveSize [of s w el] have a: "prefix (trace s) (trace s1)"
    by simp
  from assms(2) prefix_trace_persistHead [of s1 w e1 qs] have b: "prefix (trace s1) (trace s2)"
    by simp
  have c: "prefix (trace s2) (trace (result_state (dispatch w e2 s2)))"
    by (rule prefix_trace_dispatch)
  from prefix_order.trans [OF prefix_order.trans [OF a b] c] show ?thesis .
qed

lemma prefix_trace_iteration: "prefix (trace s) (trace (step_state (iteration w el s)))"
proof (cases w el s rule: iteration_cases)
  case (raise1 f s1)
  with prefix_trace_resolveSize [of s w el] show ?thesis
    by simp
next
  case (reenter1 s1)
  with prefix_trace_resolveSize [of s w el] show ?thesis
    by simp
next
  case (raise2 e1 qs s1 e2 s2 f s3)
  with prefix_trace_before_retire [OF raise2(1,2)] show ?thesis
    by simp
next
  case (reenter2 e1 qs s1 e2 s2 s3)
  with prefix_trace_before_retire [OF reenter2(1,2)] show ?thesis
    by simp
next
  case (ok e1 qs s1 e2 s2 st s3)
  from prefix_trace_before_retire [OF ok(1,2)] ok(3) have a: "prefix (trace s) (trace s3)"
    by simp
  from prefix_order.trans [OF a prefix_trace_retire [of s3 w e2 st]] ok(4) show ?thesis
    by simp
qed

lemma prefix_trace_loop: "prefix (trace s) (trace (state_of (loop n w elo s)))"
proof (induction n w elo s rule: loop.induct)
  case (1 n w s)
  then show ?case by simp
next
  case (2 w element s)
  then show ?case by simp
next
  case (3 n w element s)
  show ?case
  proof (cases "iteration w element s")
    case (Ok s1)
    with prefix_trace_iteration [of s w element] have a: "prefix (trace s) (trace s1)"
      by simp
    from prefix_order.trans [OF a "3.IH" [OF Ok]] Ok show ?thesis
      by simp
  next
    case (Raise f s1)
    with prefix_trace_iteration [of s w element] show ?thesis
      by simp
  next
    case (Reenter s1)
    with prefix_trace_iteration [of s w element] show ?thesis
      by simp
  qed
qed


subsection \<open>Dispatch\<close>

lemma dispatch_calls:
  "((runner (params el) = ''gog'' \<or> runner (params el) = ''legendary'') \<and> type el = ''install'' \<longrightarrow>
      operations (trace (result_state (dispatch w el s))) =
        operations (trace s) @ [Call (InstallQueueElement (params el))] \<and>
      (\<forall>st s'. dispatch w el s = Ok (st, s') \<longrightarrow>
         installQueueElement w (tick s) (params el) = Inr st))
   \<and> ((runner (params el) = ''gog'' \<or> runner (params el) = ''legendary'') \<and> type el = ''update'' \<longrightarrow>
      operations (trace (result_state (dispatch w el s))) =
        operations (trace s) @ [Call (UpdateQueueElement (params el))] \<and>
      (\<forall>st s'. dispatch w el s = Ok (st, s') \<longrightarrow>
         updateQueueElement w (tick s) (params el) = Inr st))
   \<and> (runner (params el) = ''hyperplay'' \<longrightarrow>
      operations (trace (result_state (dispatch w el s))) =
        operations (trace s) @ [Call (DownloadGame (appName (params el)))] \<and>
      (\<forall>st s'. dispatch w el s = Ok (st, s') \<longrightarrow>
         downloadGame w (tick s) (appName (params el)) = Inr st))
   \<and> (\<not> ((runner (params el) = ''gog'' \<or> runner (params el) = ''legendary'') \<and>
           (type el = ''install'' \<or> type el = ''update'')) \<and>
       runner (params el) \<noteq> ''hyperplay'' \<longrightarrow>
      dispatch w el s = Ok (Some Error, s))"
proof (intro conjI impI allI)
  assume a: "(runner (params el) = ''gog'' \<or> runner (params el) = ''legendary'') \<and> type el = ''install''"
  then have d: "dispatch w el s =
      await w (installQueueElement w (tick s) (params el))
        (emit [Call (InstallQueueElement (params el))] s)"
    by (simp add: dispatch_def manifest_runner_def)
  show "operations (trace (result_state (dispatch w el s))) =
        operations (trace s) @ [Call (InstallQueueElement (params el))]"
    by (simp add: d await_frame)
  fix st s'
  assume "dispatch w el s = Ok (st, s')"
  with d have "await w (installQueueElement w (tick s) (params el))
      (emit [Call (InstallQueueElement (params el))] s) = Ok (st, s')"
    by simp
  from await_Ok [OF this] show "installQueueElement w (tick s) (params el) = Inr st"
    by simp
next
  assume a: "(runner (params el) = ''gog'' \<or> runner (params el) = ''legendary'') \<and> type el = ''update''"
  then have d: "dispatch w el s =
      await w (updateQueueElement w (tick s) (params el))
        (emit [Call (UpdateQueueElement (params el))] s)"
    by (simp add: dispatch_def manifest_runner_def)
  show "operations (trace (result_state (dispatch w el s))) =
        operations (trace s) @ [Call (UpdateQueueElement (params el))]"
    by (simp add: d await_frame)
  fix st s'
  assume "dispatch w el s = Ok (st, s')"
  with d have "await w (updateQueueElement w (tick s) (params el))
      (emit [Call (UpdateQueueElement (params el))] s) = Ok (st, s')"
    by simp
  from await_Ok [OF this] show "updateQueueElement w (tick s) (params el) = Inr st"
    by simp
next
  assume a: "runner (params el) = ''hyperplay''"
  then have d: "dispatch w el s =
      await w (downloadGame w (tick s) (appName (params el)))
        (emit [Call (DownloadGame (appName (params el)))] s)"
    by (simp add: dispatch_def manifest_runner_def)
  show "operations (trace (result_state (dispatch w el s))) =
        operations (trace s) @ [Call (DownloadGame (appName (params el)))]"
    by (simp add: d await_frame)
  fix st s'
  assume "dispatch w el s = Ok (st, s')"
  with d have "await w (downloadGame w (tick s) (appName (params el)))
      (emit [Call (DownloadGame (appName (params el)))] s) = Ok (st, s')"
    by simp
  from await_Ok [OF this] show "downloadGame w (tick s) (appName (params el)) = Inr st"
    by simp
next
  assume "\<not> ((runner (params el) = ''gog'' \<or> runner (params el) = ''legendary'') \<and>
           (type el = ''install'' \<or> type el = ''update'')) \<and>
       runner (params el) \<noteq> ''hyperplay''"
  then show "dispatch w el s = Ok (Some Error, s)"
    by (auto simp: dispatch_def manifest_runner_def)
qed

lemma retire_operations [simp]:
  "operations (trace (retire w el st s)) = operations (trace s)"
  by (simp add: retire_eq)

lemma iteration_after_resolve:
  assumes "resolveSize w el s = Ok ((e1, qs), s1)"
  shows "iteration w el s =
      (case dispatch w (e1\<lparr>startTime := now w (tick s1)\<rparr>) (snd (persistHead w e1 qs s1)) of
         Ok (st, s3) \<Rightarrow> Ok (retire w (e1\<lparr>startTime := now w (tick s1)\<rparr>) st s3)
       | Raise f s3 \<Rightarrow> Raise f s3
       | Reenter s3 \<Rightarrow> Reenter s3)"
    and "operations (trace (step_state (iteration w el s))) =
      operations (trace (result_state
        (dispatch w (e1\<lparr>startTime := now w (tick s1)\<rparr>) (snd (persistHead w e1 qs s1)))))"
    and "operations (trace (snd (persistHead w e1 qs s1))) = operations (trace s)"
    and "tick (snd (persistHead w e1 qs s1)) = tick s1"
proof -
  let ?e2 = "e1\<lparr>startTime := now w (tick s1)\<rparr>"
  let ?s2 = "snd (persistHead w e1 qs s1)"
  show i: "iteration w el s =
      (case dispatch w ?e2 ?s2 of
         Ok (st, s3) \<Rightarrow> Ok (retire w ?e2 st s3)
       | Raise f s3 \<Rightarrow> Raise f s3
       | Reenter s3 \<Rightarrow> Reenter s3)"
    unfolding iteration_def assms by (simp add: persistHead_eq)
  show "operations (trace (step_state (iteration w el s))) =
      operations (trace (result_state (dispatch w ?e2 ?s2)))"
    unfolding i by (cases "dispatch w ?e2 ?s2") auto
  from assms resolveSize_operations [of w el s] have "operations (trace s1) = operations (trace s)"
    by simp
  then show "operations (trace ?s2) = operations (trace s)"
    by (simp add: persistHead_eq)
  show "tick ?s2 = tick s1"
    by (simp add: persistHead_eq)
qed

lemma iteration_without_resolve:
  assumes "\<forall>r. resolveSize w el s \<noteq> Ok r"
  shows "operations (trace (step_state (iteration w el s))) = operations (trace s)"
proof (cases "resolveSize w el s")
  case (Ok r)
  with assms show ?thesis by simp
next
  case (Raise f s1)
  with resolveSize_operations [of w el s] show ?thesis
    by (simp add: iteration_def)
next
  case (Reenter s1)
  with resolveSize_operations [of w el s] show ?thesis
    by (simp add: iteration_def)
qed

lemma with_size_params: "params (with_size sz el) = (params el)\<lparr>size_p := Some sz\<rparr>"
  by (simp add: with_size_def)

text \<open>
  C5. In every iteration of the loop the operation called for the head task is fixed by
  its runner and type. Once the size is resolved (the element then carries the params of
  the head task with the size filled in), an iteration on a head task of runner
  \<^verbatim>\<open>gog\<close> or \<^verbatim>\<open>legendary\<close> calls \<^verbatim>\<open>installQueueElement\<close> with those params when the type
  is \<^verbatim>\<open>install\<close> and \<^verbatim>\<open>updateQueueElement\<close> when it is \<^verbatim>\<open>update\<close>; on a head task of runner
  \<^verbatim>\<open>hyperplay\<close> it calls \<^verbatim>\<open>downloadGame\<close> with the appName, whatever the type. This is
  the only operation the iteration calls, and the iteration ends normally only with the
  status that call returned. For every other combination the iteration calls no
  operation and retires the task with status \<^verbatim>\<open>error\<close>. An iteration whose size lookup
  does not return calls no operation. The loop, and \<^verbatim>\<open>initQueue\<close> on a pending head
  task, run exactly this iteration on the head task; the conditional expression itself
  is characterised in the last four parts.
\<close>

theorem dispatch_by_runner_and_type:
  "(resolveSize w el s = Ok ((e1, qs), s1) \<and>
    (runner (params el) = ''gog'' \<or> runner (params el) = ''legendary'') \<and>
    type el = ''install'' \<longrightarrow>
      (\<exists>sz. params e1 = (params el)\<lparr>size_p := Some sz\<rparr>) \<and>
      operations (trace (step_state (iteration w el s))) =
        operations (trace s) @ [Call (InstallQueueElement (params e1))] \<and>
      (\<forall>s4. iteration w el s = Ok s4 \<longrightarrow>
         (\<exists>st s3. installQueueElement w (tick s1) (params e1) = Inr st \<and>
            s4 = retire w (e1\<lparr>startTime := now w (tick s1)\<rparr>) st s3)))
   \<and> (resolveSize w el s = Ok ((e1, qs), s1) \<and>
       (runner (params el) = ''gog'' \<or> runner (params el) = ''legendary'') \<and>
       type el = ''update'' \<longrightarrow>
      (\<exists>sz. params e1 = (params el)\<lparr>size_p := Some sz\<rparr>) \<and>
      operations (trace (step_state (iteration w el s))) =
        operations (trace s) @ [Call (UpdateQueueElement (params e1))] \<and>
      (\<forall>s4. iteration w el s = Ok s4 \<longrightarrow>
         (\<exists>st s3. updateQueueElement w (tick s1) (params e1) = Inr st \<and>
            s4 = retire w (e1\<lparr>startTime := now w (tick s1)\<rparr>) st s3)))
   \<and> (resolveSize w el s = Ok ((e1, qs), s1) \<and> runner (params el) = ''hyperplay'' \<longrightarrow>
      operations (trace (step_state (iteration w el s))) =
        operations (trace s) @ [Call (DownloadGame (appName (params el)))] \<and>
      (\<forall>s4. iteration w el s = Ok s4 \<longrightarrow>
         (\<exists>st s3. downloadGame w (tick s1) (appName (params el)) = Inr st \<and>
            s4 = retire w (e1\<lparr>startTime := now w (tick s1)\<rparr>) st s3)))
   \<and> (resolveSize w el s = Ok ((e1, qs), s1) \<and>
       \<not> ((runner (params el) = ''gog'' \<or> runner (params el) = ''legendary'') \<and>
           (type el = ''install'' \<or> type el = ''update'')) \<and>
       runner (params el) \<noteq> ''hyperplay'' \<longrightarrow>
      operations (trace (step_state (iteration w el s))) = operations (trace s) \<and>
      iteration w el s =
        Ok (retire w (e1\<lparr>startTime := now w (tick s1)\<rparr>) (Some Error)
              (snd (persistHead w e1 qs s1))) \<and>
      (\<exists>x\<in>set (get_finished (step_state (iteration w el s))).
         name_of x = name_of el \<and> status x = Some Error))
   \<and> ((\<forall>r. resolveSize w el s \<noteq> Ok r) \<longrightarrow>
        operations (trace (step_state (iteration w el s))) = operations (trace s))
   \<and> loop (Suc n) w (Some el) s =
       (case iteration w el s of
          Ok s' \<Rightarrow> loop n w (getFirstQueueElement s') s'
        | Raise f s' \<Rightarrow> Faulted f s'
        | Reenter s' \<Rightarrow> Reentered s')
   \<and> (getFirstQueueElement s = Some el \<longrightarrow>
        initQueue (Suc n) w s =
          (case iteration w el (s\<lparr>queueState := Running\<rparr>) of
             Ok s' \<Rightarrow> loop n w (getFirstQueueElement s') s'
           | Raise f s' \<Rightarrow> Faulted f s'
           | Reenter s' \<Rightarrow> Reentered s'))
   \<and> ((runner (params el) = ''gog'' \<or> runner (params el) = ''legendary'') \<and>
       type el = ''install'' \<longrightarrow>
      operations (trace (result_state (dispatch w el s))) =
        operations (trace s) @ [Call (InstallQueueElement (params el))] \<and>
      (\<forall>st s'. dispatch w el s = Ok (st, s') \<longrightarrow>
         installQueueElement w (tick s) (params el) = Inr st))
   \<and> ((runner (params el) = ''gog'' \<or> runner (params el) = ''legendary'') \<and>
       type el = ''update'' \<longrightarrow>
      operations (trace (result_state (dispatch w el s))) =
        operations (trace s) @ [Call (UpdateQueueElement (params el))] \<and>
      (\<forall>st s'. dispatch w el s = Ok (st, s') \<longrightarrow>
         updateQueueElement w (tick s) (params el) = Inr st))
   \<and> (runner (params el) = ''hyperplay'' \<longrightarrow>
      operations (trace (result_state (dispatch w el s))) =
        operations (trace s) @ [Call (DownloadGame (appName (params el)))] \<and>
      (\<forall>st s'. dispatch w el s = Ok (st, s') \<longrightarrow>
         downloadGame w (tick s) (appName (params el)) = Inr st))
   \<and> (\<not> ((runner (params el) = ''gog'' \<or> runner (params el) = ''legendary'') \<and>
           (type el = ''install'' \<or> type el = ''update'')) \<and>
       runner (params el) \<noteq> ''hyperplay'' \<longrightarrow>
      dispatch w el s = Ok (Some Error, s))"
proof -
  let ?e2 = "e1\<lparr>startTime := now w (tick s1)\<rparr>"
  let ?s2 = "snd (persistHead w e1 qs s1)"
  have fields: "resolveSize w el s = Ok ((e1, qs), s1) \<Longrightarrow>
      (\<exists>sz. params e1 = (params el)\<lparr>size_p := Some sz\<rparr>) \<and>
      runner (params ?e2) = runner (params el) \<and> type ?e2 = type el \<and>
      appName (params ?e2) = appName (params el) \<and> params ?e2 = params e1 \<and>
      name_of ?e2 = name_of el"
  proof -
    assume "resolveSize w el s = Ok ((e1, qs), s1)"
    from resolveSize_Ok [OF this] obtain sz where "e1 = with_size sz el"
      by blast
    then show ?thesis
      by (auto simp: with_size_params name_of_def)
  qed
  have completes: "\<exists>st s3. reply = Inr st \<and> s4 = retire w ?e2 st s3"
    if r: "resolveSize w el s = Ok ((e1, qs), s1)" and i: "iteration w el s = Ok s4"
      and d: "\<forall>st s'. dispatch w ?e2 ?s2 = Ok (st, s') \<longrightarrow> reply = Inr st"
    for s4 and reply :: "fault + DMStatus option"
  proof -
    from i iteration_after_resolve(1) [OF r] obtain st s3 where
      "dispatch w ?e2 ?s2 = Ok (st, s3)" "s4 = retire w ?e2 st s3"
      by (cases "dispatch w ?e2 ?s2") auto
    with d show ?thesis
      by blast
  qed
  have 1: "resolveSize w el s = Ok ((e1, qs), s1) \<and>
    (runner (params el) = ''gog'' \<or> runner (params el) = ''legendary'') \<and>
    type el = ''install'' \<longrightarrow>
      (\<exists>sz. params e1 = (params el)\<lparr>size_p := Some sz\<rparr>) \<and>
      operations (trace (step_state (iteration w el s))) =
        operations (trace s) @ [Call (InstallQueueElement (params e1))] \<and>
      (\<forall>s4. iteration w el s = Ok s4 \<longrightarrow>
         (\<exists>st s3. installQueueElement w (tick s1) (params e1) = Inr st \<and>
            s4 = retire w ?e2 st s3))"
  proof (intro impI)
    assume a: "resolveSize w el s = Ok ((e1, qs), s1) \<and>
      (runner (params el) = ''gog'' \<or> runner (params el) = ''legendary'') \<and>
      type el = ''install''"
    then have r: "resolveSize w el s = Ok ((e1, qs), s1)"
      by simp
    note f = fields [OF r]
    from a f have c: "(runner (params ?e2) = ''gog'' \<or> runner (params ?e2) = ''legendary'') \<and>
        type ?e2 = ''install''"
      by simp
    with dispatch_calls [of ?e2 w ?s2]
    have o: "operations (trace (result_state (dispatch w ?e2 ?s2))) =
        operations (trace ?s2) @ [Call (InstallQueueElement (params ?e2))]"
      and d: "\<forall>st s'. dispatch w ?e2 ?s2 = Ok (st, s') \<longrightarrow>
         installQueueElement w (tick ?s2) (params ?e2) = Inr st"
      by blast+
    from o f iteration_after_resolve(2,3) [OF r]
    have "operations (trace (step_state (iteration w el s))) =
        operations (trace s) @ [Call (InstallQueueElement (params e1))]"
      by simp
    moreover from d f iteration_after_resolve(4) [OF r]
    have "\<forall>st s'. dispatch w ?e2 ?s2 = Ok (st, s') \<longrightarrow>
         installQueueElement w (tick s1) (params e1) = Inr st"
      by simp
    then have "\<forall>s4. iteration w el s = Ok s4 \<longrightarrow>
         (\<exists>st s3. installQueueElement w (tick s1) (params e1) = Inr st \<and>
            s4 = retire w ?e2 st s3)"
      using completes [OF r] by blast
    ultimately show "(\<exists>sz. params e1 = (params el)\<lparr>size_p := Some sz\<rparr>) \<and>
      operations (trace (step_state (iteration w el s))) =
        operations (trace s) @ [Call (InstallQueueElement (params e1))] \<and>
      (\<forall>s4. iteration w el s = Ok s4 \<longrightarrow>
         (\<exists>st s3. installQueueElement w (tick s1) (params e1) = Inr st \<and>
            s4 = retire w ?e2 st s3))"
      using f by blast
  qed
  have 2: "resolveSize w el s = Ok ((e1, qs), s1) \<and>
       (runner (params el) = ''gog'' \<or> runner (params el) = ''legendary'') \<and>
       type el = ''update'' \<longrightarrow>
      (\<exists>sz. params e1 = (params el)\<lparr>size_p := Some sz\<rparr>) \<and>
      operations (trace (step_state (iteration w el s))) =
        operations (trace s) @ [Call (UpdateQueueElement (params e1))] \<and>
      (\<forall>s4. iteration w el s = Ok s4 \<longrightarrow>
         (\<exists>st s3. updateQueueElement w (tick s1) (params e1) = Inr st \<and>
            s4 = retire w ?e2 st s3))"
  proof (intro impI)
    assume a: "resolveSize w el s = Ok ((e1, qs), s1) \<and>
      (runner (params el) = ''gog'' \<or> runner (params el) = ''legendary'') \<and>
      type el = ''update''"
    then have r: "resolveSize w el s = Ok ((e1, qs), s1)"
      by simp
    note f = fields [OF r]
    from a f have c: "(runner (params ?e2) = ''gog'' \<or> runner (params ?e2) = ''legendary'') \<and>
        type ?e2 = ''update''"
      by simp
    with dispatch_calls [of ?e2 w ?s2]
    have o: "operations (trace (result_state (dispatch w ?e2 ?s2))) =
        operations (trace ?s2) @ [Call (UpdateQueueElement (params ?e2))]"
      and d: "\<forall>st s'. dispatch w ?e2 ?s2 = Ok (st, s') \<longrightarrow>
         updateQueueElement w (tick ?s2) (params ?e2) = Inr st"
      by blast+
    from o f iteration_after_resolve(2,3) [OF r]
    have "operations (trace (step_state (iteration w el s))) =
        operations (trace s) @ [Call (UpdateQueueElement (params e1))]"
      by simp
    moreover from d f iteration_after_resolve(4) [OF r]
    have "\<forall>st s'. dispatch w ?e2 ?s2 = Ok (st, s') \<longrightarrow>
         updateQueueElement w (tick s1) (params e1) = Inr st"
      by simp
    then have "\<forall>s4. iteration w el s = Ok s4 \<longrightarrow>
         (\<exists>st s3. updateQueueElement w (tick s1) (params e1) = Inr st \<and>
            s4 = retire w ?e2 st s3)"
      using completes [OF r] by blast
    ultimately show "(\<exists>sz. params e1 = (params el)\<lparr>size_p := Some sz\<rparr>) \<and>
      operations (trace (step_state (iteration w el s))) =
        operations (trace s) @ [Call (UpdateQueueElement (params e1))] \<and>
      (\<forall>s4. iteration w el s = Ok s4 \<longrightarrow>
         (\<exists>st s3. updateQueueElement w (tick s1) (params e1) = Inr st \<and>
            s4 = retire w ?e2 st s3))"
      using f by blast
  qed
  have 3: "resolveSize w el s = Ok ((e1, qs), s1) \<and> runner (params el) = ''hyperplay'' \<longrightarrow>
      operations (trace (step_state (iteration w el s))) =
        operations (trace s) @ [Call (DownloadGame (appName (params el)))] \<and>
      (\<forall>s4. iteration w el s = Ok s4 \<longrightarrow>
         (\<exists>st s3. downloadGame w (tick s1) (appName (params el)) = Inr st \<and>
            s4 = retire w ?e2 st s3))"
  proof (intro impI)
    assume a: "resolveSize w el s = Ok ((e1, qs), s1) \<and> runner (params el) = ''hyperplay''"
    then have r: "resolveSize w el s = Ok ((e1, qs), s1)"
      by simp
    note f = fields [OF r]
    from a f have c: "runner (params ?e2) = ''hyperplay''"
      by simp
    with dispatch_calls [of ?e2 w ?s2]
    have o: "operations (trace (result_state (dispatch w ?e2 ?s2))) =
        operations (trace ?s2) @ [Call (DownloadGame (appName (params ?e2)))]"
      and d: "\<forall>st s'. dispatch w ?e2 ?s2 = Ok (st, s') \<longrightarrow>
         downloadGame w (tick ?s2) (appName (params ?e2)) = Inr st"
      by blast+
    from o f iteration_after_resolve(2,3) [OF r]
    have "operations (trace (step_state (iteration w el s))) =
        operations (trace s) @ [Call (DownloadGame (appName (params el)))]"
      by simp
    moreover from d f iteration_after_resolve(4) [OF r]
    have "\<forall>st s'. dispatch w ?e2 ?s2 = Ok (st, s') \<longrightarrow>
         downloadGame w (tick s1) (appName (params el)) = Inr st"
      by simp
    then have "\<forall>s4. iteration w el s = Ok s4 \<longrightarrow>
         (\<exists>st s3. downloadGame w (tick s1) (appName (params el)) = Inr st \<and>
            s4 = retire w ?e2 st s3)"
      using completes [OF r] by blast
    ultimately show "operations (trace (step_state (iteration w el s))) =
        operations (trace s) @ [Call (DownloadGame (appName (params el)))] \<and>
      (\<forall>s4. iteration w el s = Ok s4 \<longrightarrow>
         (\<exists>st s3. downloadGame w (tick s1) (appName (params el)) = Inr st \<and>
            s4 = retire w ?e2 st s3))"
      by blast
  qed
  have 4: "resolveSize w el s = Ok ((e1, qs), s1) \<and>
       \<not> ((runner (params el) = ''gog'' \<or> runner (params el) = ''legendary'') \<and>
           (type el = ''install'' \<or> type el = ''update'')) \<and>
       runner (params el) \<noteq> ''hyperplay'' \<longrightarrow>
      operations (trace (step_state (iteration w el s))) = operations (trace s) \<and>
      iteration w el s = Ok (retire w ?e2 (Some Error) ?s2) \<and>
      (\<exists>x\<in>set (get_finished (step_state (iteration w el s))).
         name_of x = name_of el \<and> status x = Some Error)"
  proof (intro impI)
    assume a: "resolveSize w el s = Ok ((e1, qs), s1) \<and>
       \<not> ((runner (params el) = ''gog'' \<or> runner (params el) = ''legendary'') \<and>
           (type el = ''install'' \<or> type el = ''update'')) \<and>
       runner (params el) \<noteq> ''hyperplay''"
    then have r: "resolveSize w el s = Ok ((e1, qs), s1)"
      by simp
    note f = fields [OF r]
    from a f have "\<not> ((runner (params ?e2) = ''gog'' \<or> runner (params ?e2) = ''legendary'') \<and>
           (type ?e2 = ''install'' \<or> type ?e2 = ''update'')) \<and>
       runner (params ?e2) \<noteq> ''hyperplay''"
      by simp
    with dispatch_calls [of ?e2 w ?s2] have d: "dispatch w ?e2 ?s2 = Ok (Some Error, ?s2)"
      by blast
    with iteration_after_resolve(1) [OF r]
    have i: "iteration w el s = Ok (retire w ?e2 (Some Error) ?s2)"
      by simp
    from d iteration_after_resolve(2,3) [OF r]
    have o: "operations (trace (step_state (iteration w el s))) = operations (trace s)"
      by simp
    from addToFinished_elements_entry [of "?e2\<lparr>endTime := now w (tick ?s2)\<rparr>" Error
        "get_finished ?s2"] f
    have "\<exists>x\<in>set (get_finished (retire w ?e2 (Some Error) ?s2)).
         name_of x = name_of el \<and> status x = Some Error"
      by (simp add: name_of_def)
    with i o show "operations (trace (step_state (iteration w el s))) = operations (trace s) \<and>
      iteration w el s = Ok (retire w ?e2 (Some Error) ?s2) \<and>
      (\<exists>x\<in>set (get_finished (step_state (iteration w el s))).
         name_of x = name_of el \<and> status x = Some Error)"
      by simp
  qed
  have 5: "(\<forall>r. resolveSize w el s \<noteq> Ok r) \<longrightarrow>
        operations (trace (step_state (iteration w el s))) = operations (trace s)"
    using iteration_without_resolve by blast
  have 6: "loop (Suc n) w (Some el) s =
       (case iteration w el s of
          Ok s' \<Rightarrow> loop n w (getFirstQueueElement s') s'
        | Raise f s' \<Rightarrow> Faulted f s'
        | Reenter s' \<Rightarrow> Reentered s')"
    by simp
  have 7: "getFirstQueueElement s = Some el \<longrightarrow>
        initQueue (Suc n) w s =
          (case iteration w el (s\<lparr>queueState := Running\<rparr>) of
             Ok s' \<Rightarrow> loop n w (getFirstQueueElement s') s'
           | Raise f s' \<Rightarrow> Faulted f s'
           | Reenter s' \<Rightarrow> Reentered s')"
    by (simp add: initQueue_head)
  note 8 = dispatch_calls [of el w s]
  show ?thesis
    by (rule conjI [OF 1 conjI [OF 2 conjI [OF 3 conjI [OF 4 conjI [OF 5 conjI [OF 6
          conjI [OF 7 8]]]]]]])
qed


lemma ex_resolveSize_manifest:
  assumes "manifest_runner r"
  shows "resolveSize (simple_world (Inr None) reply quiet) (task ''G1'' r ty)
      (state_with (Some [task ''G1'' r ty]) None Running)
    = Ok ((with_size ''?? MB'' (task ''G1'' r ty), [task ''G1'' r ty]),
          (emit [Call (GetInstallInfo ''G1'' r ''linux'')]
             (emit [Frontend (changedDMQueueInformation [task ''G1'' r ty])]
                (state_with (Some [task ''G1'' r ty]) None Running)))\<lparr>tick := 1\<rparr>)"
  using assms
  by (simp add: resolveSize_def Let_def await_def suspend_def quiet_def simple_world_def
        size_text_def task_def state_with_def initial_state_def get_queue_def)

lemma ex_resolveSize_other:
  assumes "\<not> manifest_runner r"
  shows "resolveSize (simple_world info reply quiet) (task ''G1'' r ty)
      (state_with (Some [task ''G1'' r ty]) None Running)
    = Ok ((with_size ''?? MB'' (task ''G1'' r ty), [task ''G1'' r ty]),
          emit [Frontend (changedDMQueueInformation [task ''G1'' r ty])]
            (state_with (Some [task ''G1'' r ty]) None Running))"
  using assms
  by (simp add: resolveSize_def Let_def task_def state_with_def initial_state_def
        get_queue_def)

lemma ex_resolveSize_fault:
  assumes "manifest_runner r"
  shows "\<forall>x. resolveSize (simple_world (Inl f) reply quiet) (task ''G1'' r ty)
      (state_with (Some [task ''G1'' r ty]) None Running) \<noteq> Ok x"
  using assms
  by (simp add: resolveSize_def Let_def await_def suspend_def quiet_def simple_world_def
        task_def state_with_def initial_state_def get_queue_def)

theorem dispatch_by_runner_and_type_witness:
  "operations (trace (step_state (iteration (simple_world (Inr None) (Inr (Some Done)) quiet)
      (task ''G1'' ''gog'' ''install'')
      (state_with (Some [task ''G1'' ''gog'' ''install'']) None Running))))
     = [Call (InstallQueueElement
          (params (with_size ''?? MB'' (task ''G1'' ''gog'' ''install''))))]
   \<and> operations (trace (step_state (iteration (simple_world (Inr None) (Inr (Some Done)) quiet)
      (task ''G1'' ''legendary'' ''update'')
      (state_with (Some [task ''G1'' ''legendary'' ''update'']) None Running))))
     = [Call (UpdateQueueElement
          (params (with_size ''?? MB'' (task ''G1'' ''legendary'' ''update''))))]
   \<and> operations (trace (step_state (iteration (simple_world (Inr None) (Inr (Some Done)) quiet)
      (task ''G1'' ''hyperplay'' ''update'')
      (state_with (Some [task ''G1'' ''hyperplay'' ''update'']) None Running))))
     = [Call (DownloadGame ''G1'')]
   \<and> operations (trace (step_state (iteration (simple_world (Inr None) (Inr (Some Done)) quiet)
      (task ''G1'' ''gog'' ''download'')
      (state_with (Some [task ''G1'' ''gog'' ''download'']) None Running))))
     = []
   \<and> operations (trace (step_state (iteration (simple_world (Inr None) (Inr (Some Done)) quiet)
      (task ''G1'' ''sideload'' ''install'')
      (state_with (Some [task ''G1'' ''sideload'' ''install'']) None Running))))
     = []
   \<and> operations (trace (step_state (iteration
      (simple_world (Inl (Fault ''offline'')) (Inr (Some Done)) quiet)
      (task ''G1'' ''gog'' ''install'')
      (state_with (Some [task ''G1'' ''gog'' ''install'']) None Running))))
     = []
   \<and> initQueue (Suc 1) (simple_world (Inr None) (Inr (Some Done)) quiet) ex_state
     = (case iteration (simple_world (Inr None) (Inr (Some Done)) quiet) ex_task
               (ex_state\<lparr>queueState := Running\<rparr>) of
          Ok s' \<Rightarrow> loop 1 (simple_world (Inr None) (Inr (Some Done)) quiet)
                     (getFirstQueueElement s') s'
        | Raise f s' \<Rightarrow> Faulted f s'
        | Reenter s' \<Rightarrow> Reentered s')
   \<and> dispatch (simple_world (Inr None) (Inr (Some Done)) quiet)
        (task ''G1'' ''sideload'' ''install'') (state_with None None Running)
     = Ok (Some Error, state_with None None Running)
   \<and> operations (trace (result_state (dispatch (simple_world (Inr None) (Inr (Some Done)) quiet)
        (task ''G1'' ''gog'' ''install'') (state_with None None Running))))
     = [Call (InstallQueueElement (params (task ''G1'' ''gog'' ''install'')))]
   \<and> operations (trace (result_state (dispatch (simple_world (Inr None) (Inr (Some Done)) quiet)
        (task ''G1'' ''legendary'' ''update'') (state_with None None Running))))
     = [Call (UpdateQueueElement (params (task ''G1'' ''legendary'' ''update'')))]
   \<and> operations (trace (result_state (dispatch (simple_world (Inr None) (Inr (Some Done)) quiet)
        (task ''G1'' ''hyperplay'' ''update'') (state_with None None Running))))
     = [Call (DownloadGame ''G1'')]"
proof -
  let ?w = "simple_world (Inr None) (Inr (Some Done)) quiet"
  let ?o = "simple_world (Inl (Fault ''offline'')) (Inr (Some Done)) quiet"
  let ?n = "state_with None None Running"
  have m: "manifest_runner ''gog''" "manifest_runner ''legendary''"
    "\<not> manifest_runner ''hyperplay''" "\<not> manifest_runner ''sideload''"
    by (simp_all add: manifest_runner_def)
  have e: "operations (trace (state_with q None Running)) = []" for q
    by (simp add: state_with_def initial_state_def)
  have f: "runner (params (task a r ty)) = r" "type (task a r ty) = ty"
    "appName (params (task a r ty)) = a" for a r ty
    by (simp_all add: task_def)
  have c1: "(runner (params (task ''G1'' ''gog'' ''install'')) = ''gog'' \<or> runner (params (task ''G1'' ''gog'' ''install'')) = ''legendary'') \<and> type (task ''G1'' ''gog'' ''install'') = ''install''"
    by (simp add: f)
  have "operations (trace (step_state (iteration ?w (task ''G1'' ''gog'' ''install'') (state_with (Some [task ''G1'' ''gog'' ''install'']) None Running))))
      = operations (trace (state_with (Some [task ''G1'' ''gog'' ''install'']) None Running)) @ [Call (InstallQueueElement (params (with_size ''?? MB'' (task ''G1'' ''gog'' ''install''))))]"
    using dispatch_by_runner_and_type [where w = ?w and el = "task ''G1'' ''gog'' ''install''"
        and s = "state_with (Some [task ''G1'' ''gog'' ''install'']) None Running"
        and ?e1.0 = "with_size ''?? MB'' (task ''G1'' ''gog'' ''install'')" and qs = "[task ''G1'' ''gog'' ''install'']"
        and ?s1.0 = "(emit [Call (GetInstallInfo ''G1'' ''gog'' ''linux'')] (emit [Frontend (changedDMQueueInformation [task ''G1'' ''gog'' ''install''])] (state_with (Some [task ''G1'' ''gog'' ''install'']) None Running)))\<lparr>tick := 1\<rparr>"]
      ex_resolveSize_manifest [OF m(1), of "Inr (Some Done)" "''install''"] c1
    by blast
  then have 1: "operations (trace (step_state (iteration ?w (task ''G1'' ''gog'' ''install'') (state_with (Some [task ''G1'' ''gog'' ''install'']) None Running))))
      = [Call (InstallQueueElement (params (with_size ''?? MB'' (task ''G1'' ''gog'' ''install''))))]"
    by (simp add: e f)
  have c2: "(runner (params (task ''G1'' ''legendary'' ''update'')) = ''gog'' \<or> runner (params (task ''G1'' ''legendary'' ''update'')) = ''legendary'') \<and> type (task ''G1'' ''legendary'' ''update'') = ''update''"
    by (simp add: f)
  have "operations (trace (step_state (iteration ?w (task ''G1'' ''legendary'' ''update'') (state_with (Some [task ''G1'' ''legendary'' ''update'']) None Running))))
      = operations (trace (state_with (Some [task ''G1'' ''legendary'' ''update'']) None Running)) @ [Call (UpdateQueueElement (params (with_size ''?? MB'' (task ''G1'' ''legendary'' ''update''))))]"
    using dispatch_by_runner_and_type [where w = ?w and el = "task ''G1'' ''legendary'' ''update''"
        and s = "state_with (Some [task ''G1'' ''legendary'' ''update'']) None Running"
        and ?e1.0 = "with_size ''?? MB'' (task ''G1'' ''legendary'' ''update'')" and qs = "[task ''G1'' ''legendary'' ''update'']"
        and ?s1.0 = "(emit [Call (GetInstallInfo ''G1'' ''legendary'' ''linux'')] (emit [Frontend (changedDMQueueInformation [task ''G1'' ''legendary'' ''update''])] (state_with (Some [task ''G1'' ''legendary'' ''update'']) None Running)))\<lparr>tick := 1\<rparr>"]
      ex_resolveSize_manifest [OF m(2), of "Inr (Some Done)" "''update''"] c2
    by blast
  then have 2: "operations (trace (step_state (iteration ?w (task ''G1'' ''legendary'' ''update'') (state_with (Some [task ''G1'' ''legendary'' ''update'']) None Running))))
      = [Call (UpdateQueueElement (params (with_size ''?? MB'' (task ''G1'' ''legendary'' ''update''))))]"
    by (simp add: e f)
  have c3: "runner (params (task ''G1'' ''hyperplay'' ''update'')) = ''hyperplay''"
    by (simp add: f)
  have "operations (trace (step_state (iteration ?w (task ''G1'' ''hyperplay'' ''update'') (state_with (Some [task ''G1'' ''hyperplay'' ''update'']) None Running))))
      = operations (trace (state_with (Some [task ''G1'' ''hyperplay'' ''update'']) None Running)) @ [Call (DownloadGame (appName (params (task ''G1'' ''hyperplay'' ''update''))))]"
    using dispatch_by_runner_and_type [where w = ?w and el = "task ''G1'' ''hyperplay'' ''update''"
        and s = "state_with (Some [task ''G1'' ''hyperplay'' ''update'']) None Running"
        and ?e1.0 = "with_size ''?? MB'' (task ''G1'' ''hyperplay'' ''update'')" and qs = "[task ''G1'' ''hyperplay'' ''update'']"
        and ?s1.0 = "emit [Frontend (changedDMQueueInformation [task ''G1'' ''hyperplay'' ''update''])] (state_with (Some [task ''G1'' ''hyperplay'' ''update'']) None Running)"]
      ex_resolveSize_other [OF m(3), of "Inr None" "Inr (Some Done)" "''update''"] c3
    by blast
  then have 3: "operations (trace (step_state (iteration ?w (task ''G1'' ''hyperplay'' ''update'') (state_with (Some [task ''G1'' ''hyperplay'' ''update'']) None Running))))
      = [Call (DownloadGame ''G1'')]"
    by (simp add: e f)
  have c4: "\<not> ((runner (params (task ''G1'' ''gog'' ''download'')) = ''gog'' \<or> runner (params (task ''G1'' ''gog'' ''download'')) = ''legendary'') \<and> (type (task ''G1'' ''gog'' ''download'') = ''install'' \<or> type (task ''G1'' ''gog'' ''download'') = ''update'')) \<and> runner (params (task ''G1'' ''gog'' ''download'')) \<noteq> ''hyperplay''"
    by (simp add: f)
  have "operations (trace (step_state (iteration ?w (task ''G1'' ''gog'' ''download'') (state_with (Some [task ''G1'' ''gog'' ''download'']) None Running))))
      = operations (trace (state_with (Some [task ''G1'' ''gog'' ''download'']) None Running))"
    using dispatch_by_runner_and_type [where w = ?w and el = "task ''G1'' ''gog'' ''download''"
        and s = "state_with (Some [task ''G1'' ''gog'' ''download'']) None Running"
        and ?e1.0 = "with_size ''?? MB'' (task ''G1'' ''gog'' ''download'')" and qs = "[task ''G1'' ''gog'' ''download'']"
        and ?s1.0 = "(emit [Call (GetInstallInfo ''G1'' ''gog'' ''linux'')] (emit [Frontend (changedDMQueueInformation [task ''G1'' ''gog'' ''download''])] (state_with (Some [task ''G1'' ''gog'' ''download'']) None Running)))\<lparr>tick := 1\<rparr>"]
      ex_resolveSize_manifest [OF m(1), of "Inr (Some Done)" "''download''"] c4
    by blast
  then have 4: "operations (trace (step_state (iteration ?w (task ''G1'' ''gog'' ''download'') (state_with (Some [task ''G1'' ''gog'' ''download'']) None Running))))
      = []"
    by (simp add: e f)
  have c5: "\<not> ((runner (params (task ''G1'' ''sideload'' ''install'')) = ''gog'' \<or> runner (params (task ''G1'' ''sideload'' ''install'')) = ''legendary'') \<and> (type (task ''G1'' ''sideload'' ''install'') = ''install'' \<or> type (task ''G1'' ''sideload'' ''install'') = ''update'')) \<and> runner (params (task ''G1'' ''sideload'' ''install'')) \<noteq> ''hyperplay''"
    by (simp add: f)
  have "operations (trace (step_state (iteration ?w (task ''G1'' ''sideload'' ''install'') (state_with (Some [task ''G1'' ''sideload'' ''install'']) None Running))))
      = operations (trace (state_with (Some [task ''G1'' ''sideload'' ''install'']) None Running))"
    using dispatch_by_runner_and_type [where w = ?w and el = "task ''G1'' ''sideload'' ''install''"
        and s = "state_with (Some [task ''G1'' ''sideload'' ''install'']) None Running"
        and ?e1.0 = "with_size ''?? MB'' (task ''G1'' ''sideload'' ''install'')" and qs = "[task ''G1'' ''sideload'' ''install'']"
        and ?s1.0 = "emit [Frontend (changedDMQueueInformation [task ''G1'' ''sideload'' ''install''])] (state_with (Some [task ''G1'' ''sideload'' ''install'']) None Running)"]
      ex_resolveSize_other [OF m(4), of "Inr None" "Inr (Some Done)" "''install''"] c5
    by blast
  then have 5: "operations (trace (step_state (iteration ?w (task ''G1'' ''sideload'' ''install'') (state_with (Some [task ''G1'' ''sideload'' ''install'']) None Running))))
      = []"
    by (simp add: e f)
  have "operations (trace (step_state (iteration ?o (task ''G1'' ''gog'' ''install'')
      (state_with (Some [task ''G1'' ''gog'' ''install'']) None Running))))
     = operations (trace (state_with (Some [task ''G1'' ''gog'' ''install'']) None Running))"
    using dispatch_by_runner_and_type [where w = ?o and el = "task ''G1'' ''gog'' ''install''"
        and s = "state_with (Some [task ''G1'' ''gog'' ''install'']) None Running"]
      ex_resolveSize_fault [OF m(1), of "Fault ''offline''" "Inr (Some Done)" "''install''"]
    by blast
  then have 6: "operations (trace (step_state (iteration ?o (task ''G1'' ''gog'' ''install'')
      (state_with (Some [task ''G1'' ''gog'' ''install'']) None Running))))
     = []"
    by (simp add: e)
  have h: "getFirstQueueElement ex_state = Some ex_task"
    by (simp add: getFirstQueueElement_def ex_state_def state_with_def initial_state_def
          get_queue_def)
  have 7: "initQueue (Suc 1) ?w ex_state
     = (case iteration ?w ex_task (ex_state\<lparr>queueState := Running\<rparr>) of
          Ok s' \<Rightarrow> loop 1 ?w (getFirstQueueElement s') s'
        | Raise f s' \<Rightarrow> Faulted f s'
        | Reenter s' \<Rightarrow> Reentered s')"
    using dispatch_by_runner_and_type [where w = ?w and el = ex_task and s = ex_state and n = 1] h
    by blast
  have 8: "dispatch ?w (task ''G1'' ''sideload'' ''install'') ?n = Ok (Some Error, ?n)"
    using dispatch_by_runner_and_type [where w = ?w and el = "task ''G1'' ''sideload'' ''install''"
        and s = ?n]
    by (simp add: f)
  have 9: "operations (trace (result_state (dispatch ?w (task ''G1'' ''gog'' ''install'') ?n)))
     = [Call (InstallQueueElement (params (task ''G1'' ''gog'' ''install'')))]"
    using dispatch_by_runner_and_type [where w = ?w and el = "task ''G1'' ''gog'' ''install''"
        and s = ?n]
    by (simp add: e f)
  have 10: "operations (trace (result_state (dispatch ?w (task ''G1'' ''legendary'' ''update'') ?n)))
     = [Call (UpdateQueueElement (params (task ''G1'' ''legendary'' ''update'')))]"
    using dispatch_by_runner_and_type [where w = ?w and el = "task ''G1'' ''legendary'' ''update''"
        and s = ?n]
    by (simp add: e f)
  have 11: "operations (trace (result_state (dispatch ?w (task ''G1'' ''hyperplay'' ''update'') ?n)))
     = [Call (DownloadGame ''G1'')]"
    using dispatch_by_runner_and_type [where w = ?w and el = "task ''G1'' ''hyperplay'' ''update''"
        and s = ?n]
    by (simp add: e f)
  show ?thesis
    by (rule conjI [OF 1 conjI [OF 2 conjI [OF 3 conjI [OF 4 conjI [OF 5 conjI [OF 6
          conjI [OF 7 conjI [OF 8 conjI [OF 9 conjI [OF 10 11]]]]]]]]]])
qed

subsection \<open>Enqueueing\<close>





subsection \<open>The size of the head task\<close>

text \<open>
  C7, as the code has it. For the runners \<^verbatim>\<open>gog\<close> and \<^verbatim>\<open>legendary\<close> the loop calls
  \<^verbatim>\<open>getInstallInfo\<close>. When the call returns, \<^verbatim>\<open>params.size\<close> becomes the formatted
  download size, or \<^verbatim>\<open>'?? MB'\<close> when the result, its manifest or its download size is
  missing or the size is 0; the element with that size is written back as the head of
  the queue and the iteration goes on to dispatch. When the call throws, nothing catches
  the fault: the iteration and the loop end with it, before any operation is called and
  with the finished history untouched. The state is then the one in which the call was
  made, changed only by the requests served during the await: the loop has written
  nothing, so without such requests the stored queue is as it was and no placeholder
  has been written. For every other runner the size is
  \<^verbatim>\<open>'?? MB'\<close> without any call.
\<close>

theorem size_lookup_best_effort:
  "((runner (params el) = ''gog'' \<or> runner (params el) = ''legendary'') \<and>
    queueState s = Running \<and>
    getInstallInfo w (tick s) (appName (params el)) (runner (params el))
      (platformToInstall (params el)) = Inr info \<longrightarrow>
      (\<exists>s1. resolveSize w el s = Ok ((with_size (size_text w info) el, get_queue s), s1) \<and>
         iteration w el s =
           (case dispatch w (fst (persistHead w (with_size (size_text w info) el) (get_queue s) s1))
                   (snd (persistHead w (with_size (size_text w info) el) (get_queue s) s1)) of
              Ok (st, s3) \<Rightarrow>
                Ok (retire w (fst (persistHead w (with_size (size_text w info) el)
                                     (get_queue s) s1)) st s3)
            | Raise f s3 \<Rightarrow> Raise f s3
            | Reenter s3 \<Rightarrow> Reenter s3) \<and>
         map_option (\<lambda>e. size_p (params e))
           (getFirstQueueElement
              (snd (persistHead w (with_size (size_text w info) el) (get_queue s) s1)))
           = Some (Some (size_text w info))))
   \<and> size_text w None = ''?? MB''
   \<and> size_text w (Some \<lparr>manifest = None\<rparr>) = ''?? MB''
   \<and> size_text w (Some \<lparr>manifest = Some \<lparr>download_size = None\<rparr>\<rparr>) = ''?? MB''
   \<and> size_text w (Some \<lparr>manifest = Some \<lparr>download_size = Some 0\<rparr>\<rparr>) = ''?? MB''
   \<and> (k \<noteq> 0 \<longrightarrow>
        size_text w (Some \<lparr>manifest = Some \<lparr>download_size = Some k\<rparr>\<rparr>) = getFileSize w k)
   \<and> (\<not> (runner (params el) = ''gog'' \<or> runner (params el) = ''legendary'') \<longrightarrow>
        resolveSize w el s =
          Ok ((with_size ''?? MB'' el, get_queue s),
              emit [Frontend (changedDMQueueInformation (get_queue s))] s))
   \<and> ((runner (params el) = ''gog'' \<or> runner (params el) = ''legendary'') \<and>
       queueState s = Running \<and>
       getInstallInfo w (tick s) (appName (params el)) (runner (params el))
         (platformToInstall (params el)) = Inl f \<longrightarrow>
        (\<exists>s1. resolveSize w el s = Raise f s1 \<and> iteration w el s = Raise f s1 \<and>
           loop (Suc n) w (Some el) s = Faulted f s1 \<and>
           operations (trace s1) = operations (trace s) \<and>
           store_finished s1 = store_finished s \<and>
           suspend w
             (emit [Call (GetInstallInfo (appName (params el)) (runner (params el))
                      (platformToInstall (params el)))]
                (emit [Frontend (changedDMQueueInformation (get_queue s))] s)) = Some s1 \<and>
           (arrivals w (tick s) = [] \<longrightarrow>
              store_queue s1 = store_queue s \<and>
              s1 = (emit [Call (GetInstallInfo (appName (params el)) (runner (params el))
                             (platformToInstall (params el)))]
                      (emit [Frontend (changedDMQueueInformation (get_queue s))] s))
                    \<lparr>tick := Suc (tick s)\<rparr>)))"
proof (intro conjI impI)
  let ?s2 = "emit [Call (GetInstallInfo (appName (params el)) (runner (params el))
                   (platformToInstall (params el)))]
               (emit [Frontend (changedDMQueueInformation (get_queue s))] s)"
  assume a: "(runner (params el) = ''gog'' \<or> runner (params el) = ''legendary'') \<and>
    queueState s = Running \<and>
    getInstallInfo w (tick s) (appName (params el)) (runner (params el))
      (platformToInstall (params el)) = Inr info"
  then have "queueState ?s2 = Running"
    by simp
  then obtain s1 where s1: "suspend w ?s2 = Some s1"
    by (rule suspend_running_frame)
  with a have r: "resolveSize w el s = Ok ((with_size (size_text w info) el, get_queue s), s1)"
    by (simp add: resolveSize_def Let_def manifest_runner_def await_def)
  let ?p = "persistHead w (with_size (size_text w info) el) (get_queue s) s1"
  have i: "iteration w el s =
           (case dispatch w (fst ?p) (snd ?p) of
              Ok (st, s3) \<Rightarrow> Ok (retire w (fst ?p) st s3)
            | Raise f s3 \<Rightarrow> Raise f s3
            | Reenter s3 \<Rightarrow> Reenter s3)"
    by (simp add: iteration_def r split_beta split: step.split prod.split)
  have h: "map_option (\<lambda>e. size_p (params e)) (getFirstQueueElement (snd ?p))
           = Some (Some (size_text w info))"
    by (cases "get_queue s")
      (simp_all add: persistHead_eq getFirstQueueElement_def set_first_def with_size_def)
  from r i h show "\<exists>s1. resolveSize w el s = Ok ((with_size (size_text w info) el, get_queue s), s1) \<and>
         iteration w el s =
           (case dispatch w (fst (persistHead w (with_size (size_text w info) el) (get_queue s) s1))
                   (snd (persistHead w (with_size (size_text w info) el) (get_queue s) s1)) of
              Ok (st, s3) \<Rightarrow>
                Ok (retire w (fst (persistHead w (with_size (size_text w info) el)
                                     (get_queue s) s1)) st s3)
            | Raise f s3 \<Rightarrow> Raise f s3
            | Reenter s3 \<Rightarrow> Reenter s3) \<and>
         map_option (\<lambda>e. size_p (params e))
           (getFirstQueueElement
              (snd (persistHead w (with_size (size_text w info) el) (get_queue s) s1)))
           = Some (Some (size_text w info))"
    by blast
next
  show "size_text w None = ''?? MB''"
    by (simp add: size_text_def)
next
  show "size_text w (Some \<lparr>manifest = None\<rparr>) = ''?? MB''"
    by (simp add: size_text_def)
next
  show "size_text w (Some \<lparr>manifest = Some \<lparr>download_size = None\<rparr>\<rparr>) = ''?? MB''"
    by (simp add: size_text_def)
next
  show "size_text w (Some \<lparr>manifest = Some \<lparr>download_size = Some 0\<rparr>\<rparr>) = ''?? MB''"
    by (simp add: size_text_def)
next
  assume "k \<noteq> 0"
  then show "size_text w (Some \<lparr>manifest = Some \<lparr>download_size = Some k\<rparr>\<rparr>) = getFileSize w k"
    by (simp add: size_text_def)
next
  assume "\<not> (runner (params el) = ''gog'' \<or> runner (params el) = ''legendary'')"
  then show "resolveSize w el s =
          Ok ((with_size ''?? MB'' el, get_queue s),
              emit [Frontend (changedDMQueueInformation (get_queue s))] s)"
    by (simp add: resolveSize_def Let_def manifest_runner_def)
next
  let ?s2 = "emit [Call (GetInstallInfo (appName (params el)) (runner (params el))
                   (platformToInstall (params el)))]
               (emit [Frontend (changedDMQueueInformation (get_queue s))] s)"
  assume a: "(runner (params el) = ''gog'' \<or> runner (params el) = ''legendary'') \<and>
       queueState s = Running \<and>
       getInstallInfo w (tick s) (appName (params el)) (runner (params el))
         (platformToInstall (params el)) = Inl f"
  then have "queueState ?s2 = Running"
    by simp
  then obtain s1 where s1: "suspend w ?s2 = Some s1"
    and f1: "store_finished s1 = store_finished ?s2"
    and o1: "operations (trace s1) = operations (trace ?s2)"
    by (rule suspend_running_frame)
  from s1 a have r: "resolveSize w el s = Raise f s1"
    by (simp add: resolveSize_def Let_def manifest_runner_def await_def)
  then have i: "iteration w el s = Raise f s1"
    by (simp add: iteration_def)
  then have l: "loop (Suc n) w (Some el) s = Faulted f s1"
    by simp
  from f1 o1 have fo: "operations (trace s1) = operations (trace s) \<and>
      store_finished s1 = store_finished s"
    by simp
  have q: "arrivals w (tick s) = [] \<longrightarrow>
      store_queue s1 = store_queue s \<and> s1 = ?s2\<lparr>tick := Suc (tick s)\<rparr>"
  proof
    assume "arrivals w (tick s) = []"
    with s1 have "s1 = ?s2\<lparr>tick := Suc (tick s)\<rparr>"
      by (simp add: suspend_def)
    then show "store_queue s1 = store_queue s \<and> s1 = ?s2\<lparr>tick := Suc (tick s)\<rparr>"
      by simp
  qed
  from r i l fo s1 q show "\<exists>s1. resolveSize w el s = Raise f s1 \<and> iteration w el s = Raise f s1 \<and>
           loop (Suc n) w (Some el) s = Faulted f s1 \<and>
           operations (trace s1) = operations (trace s) \<and>
           store_finished s1 = store_finished s \<and>
           suspend w ?s2 = Some s1 \<and>
           (arrivals w (tick s) = [] \<longrightarrow>
              store_queue s1 = store_queue s \<and> s1 = ?s2\<lparr>tick := Suc (tick s)\<rparr>)"
    by blast
qed


theorem size_lookup_best_effort_witness:
  "(\<exists>s1. resolveSize (simple_world (Inr None) (Inr (Some Done)) quiet)
        (task ''G1'' ''gog'' ''install'')
        (state_with (Some [task ''G1'' ''gog'' ''install'']) None Running)
      = Ok ((with_size ''?? MB'' (task ''G1'' ''gog'' ''install''),
             [task ''G1'' ''gog'' ''install'']), s1))
   \<and> size_text (simple_world (Inr None) (Inr (Some Done)) quiet)
        (Some \<lparr>manifest = Some \<lparr>download_size = Some 5\<rparr>\<rparr>) = ''1 GB''
   \<and> resolveSize (simple_world (Inr None) (Inr (Some Done)) quiet) ex_task ex_state
      = Ok ((with_size ''?? MB'' ex_task, [ex_task]), ex_state1)
   \<and> (\<exists>s1. loop 1 (simple_world (Inl (Fault ''offline'')) (Inr (Some Done)) quiet)
        (Some (task ''G1'' ''legendary'' ''install''))
        (state_with (Some [task ''G1'' ''legendary'' ''install'']) None Running)
      = Faulted (Fault ''offline'') s1 \<and> operations (trace s1) = [] \<and>
        store_queue s1 = Some [task ''G1'' ''legendary'' ''install''])"
proof -
  let ?w = "simple_world (Inr None) (Inr (Some Done)) quiet"
  let ?b = "simple_world (Inl (Fault ''offline'')) (Inr (Some Done)) quiet"
  let ?g = "task ''G1'' ''gog'' ''install''"
  let ?l = "task ''G1'' ''legendary'' ''install''"
  let ?sg = "state_with (Some [?g]) None Running"
  let ?sl = "state_with (Some [?l]) None Running"
  have h1: "(runner (params ?g) = ''gog'' \<or> runner (params ?g) = ''legendary'') \<and>
      queueState ?sg = Running \<and>
      getInstallInfo ?w (tick ?sg) (appName (params ?g)) (runner (params ?g))
        (platformToInstall (params ?g)) = Inr None"
    by (simp add: task_def state_with_def simple_world_def)
  have "\<exists>s1. resolveSize ?w ?g ?sg = Ok ((with_size (size_text ?w None) ?g, get_queue ?sg), s1)"
    using size_lookup_best_effort [where w = ?w and el = ?g and s = ?sg and info = None] h1
    by blast
  moreover have "size_text ?w None = ''?? MB''" "get_queue ?sg = [?g]"
    by (simp_all add: size_text_def state_with_def initial_state_def get_queue_def)
  ultimately have 1: "\<exists>s1. resolveSize ?w ?g ?sg = Ok ((with_size ''?? MB'' ?g, [?g]), s1)"
    by simp
  have "(5::int) \<noteq> 0 \<longrightarrow>
      size_text ?w (Some \<lparr>manifest = Some \<lparr>download_size = Some 5\<rparr>\<rparr>) = getFileSize ?w 5"
    using size_lookup_best_effort [where w = ?w and k = 5]
    by blast
  then have 2: "size_text ?w (Some \<lparr>manifest = Some \<lparr>download_size = Some 5\<rparr>\<rparr>) = ''1 GB''"
    by (simp add: simple_world_def)
  have h3: "\<not> (runner (params ex_task) = ''gog'' \<or> runner (params ex_task) = ''legendary'')"
    by (simp add: ex_task_def task_def)
  have "resolveSize ?w ex_task ex_state =
      Ok ((with_size ''?? MB'' ex_task, get_queue ex_state),
          emit [Frontend (changedDMQueueInformation (get_queue ex_state))] ex_state)"
    using size_lookup_best_effort [where w = ?w and el = ex_task and s = ex_state] h3
    by blast
  moreover have "get_queue ex_state = [ex_task]"
    by (simp add: ex_state_def state_with_def initial_state_def get_queue_def)
  ultimately have 3: "resolveSize ?w ex_task ex_state =
      Ok ((with_size ''?? MB'' ex_task, [ex_task]), ex_state1)"
    by (simp add: ex_state1_def)
  have h4: "(runner (params ?l) = ''gog'' \<or> runner (params ?l) = ''legendary'') \<and>
      queueState ?sl = Running \<and>
      getInstallInfo ?b (tick ?sl) (appName (params ?l)) (runner (params ?l))
        (platformToInstall (params ?l)) = Inl (Fault ''offline'')"
    by (simp add: task_def state_with_def simple_world_def)
  have "\<exists>s1. loop (Suc 0) ?b (Some ?l) ?sl = Faulted (Fault ''offline'') s1 \<and>
      operations (trace s1) = operations (trace ?sl) \<and>
      (arrivals ?b (tick ?sl) = [] \<longrightarrow> store_queue s1 = store_queue ?sl)"
    using size_lookup_best_effort [where w = ?b and el = ?l and s = ?sl
        and f = "Fault ''offline''" and n = 0] h4
    by blast
  moreover have "operations (trace ?sl) = []" "arrivals ?b (tick ?sl) = []"
    "store_queue ?sl = Some [?l]"
    by (simp_all add: state_with_def initial_state_def simple_world_def quiet_def)
  ultimately have 4: "\<exists>s1. loop 1 ?b (Some ?l) ?sl = Faulted (Fault ''offline'') s1 \<and>
      operations (trace s1) = [] \<and> store_queue s1 = Some [?l]"
    by simp
  from 1 2 3 4 show ?thesis
    by blast
qed

text \<open>
  The claim as stated fails where the lookup itself throws: the task does not get the
  placeholder and does not proceed; the fault ends the loop before any operation is
  called.
\<close>

theorem size_lookup_fault_counterexample:
  "fault_of (initQueue 5 (simple_world (Inl (Fault ''offline'')) (Inr (Some Done)) quiet)
      (state_with (Some [task ''G1'' ''gog'' ''install'']) None Idle))
     = Some (Fault ''offline'')
   \<and> map (\<lambda>e. size_p (params e))
       (get_queue (state_of (initQueue 5 (simple_world (Inl (Fault ''offline'')) (Inr (Some Done)) quiet)
          (state_with (Some [task ''G1'' ''gog'' ''install'']) None Idle))))
     = [None]
   \<and> operations (trace (state_of (initQueue 5
        (simple_world (Inl (Fault ''offline'')) (Inr (Some Done)) quiet)
        (state_with (Some [task ''G1'' ''gog'' ''install'']) None Idle))))
     = []
   \<and> get_finished (state_of (initQueue 5
        (simple_world (Inl (Fault ''offline'')) (Inr (Some Done)) quiet)
        (state_with (Some [task ''G1'' ''gog'' ''install'']) None Idle)))
     = []"
  by code_simp

subsection \<open>The tasks ahead of a pending task\<close>

text \<open>
  The appNames ahead of the appName \<open>a\<close> in a list of names are
  \<open>takeWhile (\<lambda>c. c \<noteq> a)\<close> of it.
\<close>

lemma names_remove_first:
  "names (case findIndex (\<lambda>el. name_of el = b) q of Some i \<Rightarrow> splice1 i q | None \<Rightarrow> q)
     = remove1 b (names q)"
proof (induction q)
  case Nil
  then show ?case by simp
next
  case (Cons e q)
  show ?case
  proof (cases "name_of e = b")
    case True
    then show ?thesis
      by (simp add: splice1_def)
  next
    case False
    with Cons show ?thesis
      by (cases "findIndex (\<lambda>el. name_of el = b) q") (auto simp: splice1_def)
  qed
qed

lemma names_removeFromQueue:
  "names (get_queue (removeFromQueue b u)) =
     (if b \<noteq> [] then remove1 b (names (get_queue u)) else names (get_queue u))"
  using names_remove_first [where b = b and q = "get_queue u"]
  by (simp add: removeFromQueue_get_queue)

lemma ahead_remove1:
  "b \<noteq> a \<Longrightarrow>
     takeWhile (\<lambda>c. c \<noteq> a) (remove1 b ns) = remove1 b (takeWhile (\<lambda>c. c \<noteq> a) ns)"
  by (induction ns) auto

lemma subseq_remove1: "subseq (remove1 b zs) zs"
  by (induction zs) auto

lemma ahead_append_one:
  "a \<in> set ns \<Longrightarrow> takeWhile (\<lambda>c. c \<noteq> a) (ns @ [x]) = takeWhile (\<lambda>c. c \<noteq> a) ns"
  by simp

lemma ahead_removeFromQueue:
  assumes "a \<in> set (names (get_queue u))" "b \<noteq> a"
  shows "a \<in> set (names (get_queue (removeFromQueue b u)))"
    and "subseq (takeWhile (\<lambda>c. c \<noteq> a) (names (get_queue (removeFromQueue b u))))
           (takeWhile (\<lambda>c. c \<noteq> a) (names (get_queue u)))"
    and "\<forall>c\<in>set (takeWhile (\<lambda>c. c \<noteq> a) (names (get_queue u))).
           c \<in> set (takeWhile (\<lambda>c. c \<noteq> a) (names (get_queue (removeFromQueue b u)))) \<or> c = b"
proof -
  from assms show "a \<in> set (names (get_queue (removeFromQueue b u)))"
    by (simp add: names_removeFromQueue)
  from assms(2) show "subseq (takeWhile (\<lambda>c. c \<noteq> a) (names (get_queue (removeFromQueue b u))))
           (takeWhile (\<lambda>c. c \<noteq> a) (names (get_queue u)))"
    by (simp add: names_removeFromQueue ahead_remove1 subseq_remove1)
  from assms(2) show "\<forall>c\<in>set (takeWhile (\<lambda>c. c \<noteq> a) (names (get_queue u))).
           c \<in> set (takeWhile (\<lambda>c. c \<noteq> a) (names (get_queue (removeFromQueue b u)))) \<or> c = b"
    by (auto simp: names_removeFromQueue ahead_remove1)
qed

lemma ahead_addToQueue_sync:
  assumes "a \<in> set (names (get_queue u))"
  shows "a \<in> set (names (get_queue (addToQueue_sync (Some e) u)))"
    and "takeWhile (\<lambda>c. c \<noteq> a) (names (get_queue (addToQueue_sync (Some e) u)))
           = takeWhile (\<lambda>c. c \<noteq> a) (names (get_queue u))"
  using assms by (simp_all add: names_addToQueue_elements)

lemma serve_ahead:
  "serve rs u = Some u' \<Longrightarrow> a \<in> set (names (get_queue u)) \<Longrightarrow> Remove a \<notin> set rs \<Longrightarrow>
     a \<in> set (names (get_queue u')) \<and>
     subseq (takeWhile (\<lambda>c. c \<noteq> a) (names (get_queue u')))
       (takeWhile (\<lambda>c. c \<noteq> a) (names (get_queue u))) \<and>
     (\<forall>c\<in>set (takeWhile (\<lambda>c. c \<noteq> a) (names (get_queue u))).
        c \<in> set (takeWhile (\<lambda>c. c \<noteq> a) (names (get_queue u'))) \<or> Remove c \<in> set rs)"
proof (induction rs u rule: serve.induct)
  case (1 s)
  then show ?case by simp
next
  case (2 e rs s)
  from "2.prems"(1) have i: "queueState (addToQueue_sync (Some e) s) \<noteq> Idle"
    and r: "serve rs (addToQueue_sync (Some e) s) = Some u'"
    by (simp_all add: Let_def split: if_splits)
  from "2.prems"(3) have n: "Remove a \<notin> set rs"
    by simp
  note h = ahead_addToQueue_sync [OF "2.prems"(2), of e]
  from "2.IH" [OF refl i r h(1) n] h(2) show ?case
    by auto
next
  case (3 b rs s)
  from "3.prems"(1) have r: "serve rs (removeFromQueue b s) = Some u'"
    by simp
  from "3.prems"(3) have n: "Remove a \<notin> set rs" and ba: "b \<noteq> a"
    by auto
  note h = ahead_removeFromQueue [OF "3.prems"(2) ba]
  note ih = "3.IH" [OF r h(1) n]
  from ih have 1: "a \<in> set (names (get_queue u'))"
    by simp
  from ih h(2) have 2: "subseq (takeWhile (\<lambda>c. c \<noteq> a) (names (get_queue u')))
       (takeWhile (\<lambda>c. c \<noteq> a) (names (get_queue s)))"
    using subseq_order.trans by blast
  have 3: "\<forall>c\<in>set (takeWhile (\<lambda>c. c \<noteq> a) (names (get_queue s))).
        c \<in> set (takeWhile (\<lambda>c. c \<noteq> a) (names (get_queue u'))) \<or> Remove c \<in> set (Remove b # rs)"
  proof
    fix c
    assume "c \<in> set (takeWhile (\<lambda>c. c \<noteq> a) (names (get_queue s)))"
    with h(3) have "c \<in> set (takeWhile (\<lambda>c. c \<noteq> a) (names (get_queue (removeFromQueue b s)))) \<or> c = b"
      by blast
    with ih show "c \<in> set (takeWhile (\<lambda>c. c \<noteq> a) (names (get_queue u'))) \<or>
        Remove c \<in> set (Remove b # rs)"
      by auto
  qed
  from 1 2 3 show ?case
    by blast
qed

lemma serve_keeps:
  "serve rs u = Some u' \<Longrightarrow> a \<in> set (names (get_queue u)) \<Longrightarrow> Remove a \<notin> set rs \<Longrightarrow>
     a \<in> set (names (get_queue u'))"
  using serve_ahead by blast

lemma serve_append:
  "serve (rs1 @ rs2) u = (case serve rs1 u of None \<Rightarrow> None | Some u1 \<Rightarrow> serve rs2 u1)"
  by (induction rs1 u rule: serve.induct) (simp_all add: Let_def)

lemma serve_enqueued:
  assumes "serve (rs1 @ Enqueue d # rs2) u = Some u'" "Remove (name_of d) \<notin> set rs2"
  shows "name_of d \<in> set (names (get_queue u'))"
proof -
  from assms(1) obtain u1 where u1: "serve rs1 u = Some u1"
    and r: "serve (Enqueue d # rs2) u1 = Some u'"
    by (auto simp: serve_append split: option.splits)
  from r have r2: "serve rs2 (addToQueue_sync (Some d) u1) = Some u'"
    by (simp add: Let_def split: if_splits)
  have "name_of d \<in> set (names (get_queue (addToQueue_sync (Some d) u1)))"
    by (simp add: names_addToQueue_elements)
  from serve_keeps [OF r2 this assms(2)] show ?thesis .
qed

subsection \<open>Iterations under arbitrary requests\<close>

lemma subseq_remove1_Cons:
  "subseq ys (x # xs) \<Longrightarrow> x \<notin> set xs \<Longrightarrow> subseq (remove1 x ys) xs"
proof (cases ys)
  case Nil
  then show ?thesis by simp
next
  case (Cons y ys')
  assume s: "subseq ys (x # xs)" and n: "x \<notin> set xs"
  show ?thesis
  proof (cases "y = x")
    case True
    with s Cons show ?thesis by simp
  next
    case False
    with s Cons have t: "subseq (y # ys') xs"
      by (simp add: subseq_Cons')
    from list_emb_set [OF t, of x] n have "x \<notin> set (y # ys')"
      by auto
    then have "remove1 x (y # ys') = y # ys'"
      by (simp add: remove1_idem)
    with t Cons show ?thesis by simp
  qed
qed

lemma retired_prefix:
  "prefix tr tr' \<Longrightarrow> \<exists>post. retired tr' = retired tr @ post"
  by (auto simp: prefix_def)

lemma resolveSize_no_raise:
  assumes "no_raise w" "queueState s = Running"
  shows "\<exists>sz s1. resolveSize w el s = Ok ((with_size sz el, get_queue s), s1) \<and>
           preserved s s1 \<and> tick s1 = op_tick el s"
proof (cases "manifest_runner (runner (params el))")
  case False
  then have "resolveSize w el s =
      Ok ((with_size ''?? MB'' el, get_queue s),
          emit [Frontend (changedDMQueueInformation (get_queue s))] s)"
    by (simp add: resolveSize_def Let_def)
  moreover have "preserved s (emit [Frontend (changedDMQueueInformation (get_queue s))] s)"
    by (simp add: preserved_def)
  ultimately show ?thesis
    using False by (auto simp: op_tick_def)
next
  case True
  from assms(1) obtain v where
    v: "getInstallInfo w (tick s) (appName (params el)) (runner (params el))
          (platformToInstall (params el)) = Inr v"
    unfolding no_raise_def by metis
  let ?s2 = "emit [Call (GetInstallInfo (appName (params el)) (runner (params el))
                   (platformToInstall (params el)))]
               (emit [Frontend (changedDMQueueInformation (get_queue s))] s)"
  from assms(2) have "queueState ?s2 = Running"
    by simp
  from suspend_running_frame [OF this, of w] obtain s1 where
    s1: "suspend w ?s2 = Some s1" and t1: "tick s1 = Suc (tick ?s2)"
    by blast
  from s1 have "await w (Inr v) ?s2 = Ok (v, s1)"
    by (simp add: await_def)
  with True v have r: "resolveSize w el s = Ok ((with_size (size_text w v) el, get_queue s), s1)"
    by (simp add: resolveSize_def Let_def)
  with resolveSize_preserved [of s w el] have "preserved s s1"
    by simp
  moreover from t1 True have "tick s1 = op_tick el s"
    by (simp add: op_tick_def)
  ultimately show ?thesis
    using r by blast
qed

text \<open>
  The shape of an iteration when no awaited call throws: the head is written back over
  the list read at the top of the body, and the requests of the operation's await are
  served on that state.
\<close>

lemma iteration_no_raise:
  assumes "no_raise w" "queueState s = Running" "getFirstQueueElement s = Some el"
  shows "\<exists>e2 s2 v s3. iteration w el s = Ok (retire w e2 v s3) \<and> name_of e2 = name_of el \<and>
           names (get_queue s2) = names (get_queue s) \<and> preserved s s3 \<and>
           tick s2 = op_tick el s \<and>
           ((\<not> awaited el \<and> s3 = s2) \<or>
            (awaited el \<and> serve (arrivals w (op_tick el s)) (s2\<lparr>tick := Suc (tick s2)\<rparr>) = Some s3 \<and>
               op_tick el s < tick s3))"
proof -
  from resolveSize_no_raise [OF assms(1,2)] obtain sz s1 where
    r: "resolveSize w el s = Ok ((with_size sz el, get_queue s), s1)"
    and p1: "preserved s s1" and t1: "tick s1 = op_tick el s"
    by blast
  let ?e2 = "(with_size sz el)\<lparr>startTime := now w (tick s1)\<rparr>"
  let ?s2 = "emit [StoreSet ''queue''] (s1\<lparr>store_queue := Some (set_first ?e2 (get_queue s))\<rparr>)"
  have p: "persistHead w (with_size sz el) (get_queue s) s1 = (?e2, ?s2)"
    by (simp add: persistHead_eq)
  from p1 have p2: "preserved s ?s2"
    by (simp add: preserved_def)
  have ne: "name_of ?e2 = name_of el"
    by simp
  from names_set_first [OF assms(3) ne] have n2: "names (get_queue ?s2) = names (get_queue s)"
    by simp
  from p2 assms(2) have run2: "queueState ?s2 = Running"
    by (simp add: preserved_def)
  from t1 have t2: "tick ?s2 = op_tick el s"
    by simp
  show ?thesis
  proof (cases "awaited el")
    case False
    then have "\<not> awaited ?e2"
      by simp
    with dispatch_shape [OF assms(1), of ?e2 ?s2] have d: "dispatch w ?e2 ?s2 = Ok (Some Error, ?s2)"
      by blast
    with r p have i: "iteration w el s = Ok (retire w ?e2 (Some Error) ?s2)"
      by (simp add: iteration_def)
    from i ne n2 p2 t2 False show ?thesis
      by blast
  next
    case True
    then have "awaited ?e2"
      by simp
    with dispatch_shape [OF assms(1), of ?e2 ?s2] obtain v c where
      d: "dispatch w ?e2 ?s2 = await w (Inr v) (emit [Call c] ?s2)"
      by blast
    from run2 have "queueState (emit [Call c] ?s2) = Running"
      by simp
    from suspend_running [OF this, of w] obtain s3 where
      s3: "suspend w (emit [Call c] ?s2) = Some s3"
      by blast
    then have a: "await w (Inr v) (emit [Call c] ?s2) = Ok (v, s3)"
      by (simp add: await_def)
    with d r p have i: "iteration w el s = Ok (retire w ?e2 v s3)"
      by (simp add: iteration_def)
    from s3 t2 have sv0: "serve (arrivals w (op_tick el s))
        ((emit [Call c] ?s2)\<lparr>tick := Suc (tick ?s2)\<rparr>) = Some s3"
      by (simp add: suspend_def)
    let ?s2c = "emit [Call c] ?s2"
    have n2c: "names (get_queue ?s2c) = names (get_queue s)"
      using n2 by simp
    have "preserved ?s2 ?s2c"
      by (rule preserved_emit) simp
    from preserved_trans [OF p2 this] have p2c: "preserved s ?s2c" .
    from await_preserved [of ?s2c w "Inr v"] a have "preserved ?s2c s3"
      by simp
    from preserved_trans [OF p2c this] have p3: "preserved s s3" .
    from suspend_frame [OF s3] t2 have t3: "op_tick el s < tick s3"
      by simp
    have t2c: "tick ?s2c = op_tick el s"
      using t2 by simp
    from s3 t2c have sv: "serve (arrivals w (op_tick el s)) (?s2c\<lparr>tick := Suc (tick ?s2c)\<rparr>) = Some s3"
      by (simp add: suspend_def)
    from i ne n2c p3 t2c True sv t3 show ?thesis
      by blast
  qed
qed

lemma names_retire:
  "names (get_queue (retire w e2 v s3)) =
     (if name_of e2 \<noteq> [] then remove1 (name_of e2) (names (get_queue s3))
      else names (get_queue s3))"
  using names_removeFromQueue [of "name_of e2" "addToFinished (e2\<lparr>endTime := now w (tick s3)\<rparr>) v s3"]
  by (simp add: retire_eq name_of_def)

text \<open>
  A task enqueued during the await of the head task's operation is pending after the
  iteration, unless a later request of that await removes it or it carries the head
  task's appName.
\<close>

lemma iteration_enqueued:
  assumes "no_raise w" "queueState s = Running" "getFirstQueueElement s = Some el"
    and "awaited el" "arrivals w (op_tick el s) = rs1 @ Enqueue d # rs2"
    and "Remove (name_of d) \<notin> set rs2" "name_of d \<noteq> name_of el"
  shows "\<exists>s1. iteration w el s = Ok s1 \<and> name_of d \<in> set (names (get_queue s1)) \<and>
           queueState s1 = Running"
proof -
  from iteration_no_raise [OF assms(1,2,3)] assms(4) obtain e2 s2 v s3 where
    i: "iteration w el s = Ok (retire w e2 v s3)" and ne: "name_of e2 = name_of el"
    and p3: "preserved s s3"
    and sv: "serve (arrivals w (op_tick el s)) (s2\<lparr>tick := Suc (tick s2)\<rparr>) = Some s3"
    by blast
  from sv assms(5) have "serve (rs1 @ Enqueue d # rs2) (s2\<lparr>tick := Suc (tick s2)\<rparr>) = Some s3"
    by simp
  from serve_enqueued [OF this assms(6)] have "name_of d \<in> set (names (get_queue s3))" .
  with assms(7) ne have "name_of d \<in> set (names (get_queue (retire w e2 v s3)))"
    by (simp add: names_retire)
  moreover from p3 assms(2) have "queueState (retire w e2 v s3) = Running"
    by (simp add: preserved_def)
  ultimately show ?thesis
    using i by blast
qed

text \<open>The iteration on the head task itself moves it to the finished history.\<close>

lemma iteration_head_retired:
  assumes "no_raise w" "queueState s = Running" "getFirstQueueElement s = Some el"
  shows "\<exists>s1. iteration w el s = Ok s1 \<and>
           retired (trace s1) = retired (trace s) @ [name_of el] \<and> queueState s1 = Running"
proof -
  from iteration_no_raise [OF assms] obtain e2 v s3 where
    i: "iteration w el s = Ok (retire w e2 v s3)" and ne: "name_of e2 = name_of el"
    and p3: "preserved s s3"
    by blast
  from p3 ne assms(2) have "retired (trace (retire w e2 v s3)) = retired (trace s) @ [name_of el]"
    and "queueState (retire w e2 v s3) = Running"
    by (simp_all add: preserved_def)
  with i show ?thesis
    by blast
qed

text \<open>
  An iteration on a head task with a non-empty appName, seen from a task \<open>a\<close> pending
  behind it that no request removes: \<open>a\<close> stays pending, the tasks ahead of it are
  those that were ahead of it behind the head, less the ones that requests removed.
\<close>

lemma iteration_ahead:
  assumes "no_raise w" "queueState s = Running" "queue_distinct s"
    and "get_queue s = el # rest" "a \<in> set (names rest)" "name_of el \<noteq> []"
    and "\<forall>t. Remove a \<notin> set (arrivals w t)"
  shows "\<exists>s1. iteration w el s = Ok s1 \<and> queueState s1 = Running \<and> queue_distinct s1 \<and>
      retired (trace s1) = retired (trace s) @ [name_of el] \<and>
      a \<in> set (names (get_queue s1)) \<and>
      subseq (takeWhile (\<lambda>c. c \<noteq> a) (names (get_queue s1)))
        (takeWhile (\<lambda>c. c \<noteq> a) (names rest)) \<and>
      (\<forall>c\<in>set (takeWhile (\<lambda>c. c \<noteq> a) (names rest)).
         c \<in> set (takeWhile (\<lambda>c. c \<noteq> a) (names (get_queue s1))) \<or>
         (\<exists>t. Remove c \<in> set (arrivals w t)))"
proof -
  let ?T = "takeWhile (\<lambda>c. c \<noteq> a)"
  let ?h = "name_of el"
  from assms(4) have hd: "getFirstQueueElement s = Some el"
    by (simp add: getFirstQueueElement_def)
  from assms(3,4) have d0: "?h \<notin> set (names rest)" and dr: "distinct (names rest)"
    by (simp_all add: queue_distinct_def)
  with assms(5) have ha: "?h \<noteq> a"
    by auto
  from assms(4) have N0: "names (get_queue s) = ?h # names rest"
    by simp
  with ha have T0: "?T (names (get_queue s)) = ?h # ?T (names rest)"
    by simp
  from d0 have hT: "?h \<notin> set (?T (names rest))"
    by (auto dest: set_takeWhileD)
  from iteration_no_raise [OF assms(1,2) hd] obtain e2 s2 v s3 where
    i: "iteration w el s = Ok (retire w e2 v s3)" and ne: "name_of e2 = ?h"
    and n2: "names (get_queue s2) = names (get_queue s)"
    and p3: "preserved s s3"
    and c: "(\<not> awaited el \<and> s3 = s2) \<or>
            (awaited el \<and> serve (arrivals w (op_tick el s)) (s2\<lparr>tick := Suc (tick s2)\<rparr>) = Some s3 \<and>
               op_tick el s < tick s3)"
    by blast
  have k3: "a \<in> set (names (get_queue s3)) \<and>
      subseq (?T (names (get_queue s3))) (?T (names (get_queue s))) \<and>
      (\<forall>c\<in>set (?T (names (get_queue s))).
         c \<in> set (?T (names (get_queue s3))) \<or> (\<exists>t. Remove c \<in> set (arrivals w t)))"
  proof (cases "awaited el")
    case False
    with c have "s3 = s2"
      by blast
    with n2 N0 assms(5) show ?thesis
      by simp
  next
    case True
    with c have sv: "serve (arrivals w (op_tick el s)) (s2\<lparr>tick := Suc (tick s2)\<rparr>) = Some s3"
      by blast
    from n2 N0 assms(5) have a2: "a \<in> set (names (get_queue (s2\<lparr>tick := Suc (tick s2)\<rparr>)))"
      by simp
    from assms(7) have r2: "Remove a \<notin> set (arrivals w (op_tick el s))"
      by blast
    from serve_ahead [OF sv a2 r2] n2 show ?thesis
      by auto
  qed
  let ?s1 = "retire w e2 v s3"
  from ne assms(6) have n1: "names (get_queue ?s1) = remove1 ?h (names (get_queue s3))"
    by (simp add: names_retire)
  from ha have T1: "?T (names (get_queue ?s1)) = remove1 ?h (?T (names (get_queue s3)))"
    by (simp add: n1 ahead_remove1)
  from k3 ha have 1: "a \<in> set (names (get_queue ?s1))"
    by (simp add: n1)
  from k3 T0 have "subseq (?T (names (get_queue s3))) (?h # ?T (names rest))"
    by simp
  from subseq_remove1_Cons [OF this hT] have 2: "subseq (?T (names (get_queue ?s1))) (?T (names rest))"
    by (simp add: T1)
  have 3: "\<forall>c\<in>set (?T (names rest)).
         c \<in> set (?T (names (get_queue ?s1))) \<or> (\<exists>t. Remove c \<in> set (arrivals w t))"
  proof
    fix c
    assume m: "c \<in> set (?T (names rest))"
    with hT have ch: "c \<noteq> ?h"
      by auto
    from m T0 have "c \<in> set (?T (names (get_queue s)))"
      by simp
    with k3 have "c \<in> set (?T (names (get_queue s3))) \<or> (\<exists>t. Remove c \<in> set (arrivals w t))"
      by blast
    with ch show "c \<in> set (?T (names (get_queue ?s1))) \<or> (\<exists>t. Remove c \<in> set (arrivals w t))"
      by (auto simp: T1)
  qed
  from p3 ne assms(2) have 4: "retired (trace ?s1) = retired (trace s) @ [?h]"
    and 5: "queueState ?s1 = Running"
    by (simp_all add: preserved_def)
  from iteration_queue_distinct [OF assms(3) hd, of w] i have 6: "queue_distinct ?s1"
    by simp
  from i 5 6 4 1 2 3 show ?thesis
    by blast
qed

text \<open>
  The loop reaches every pending task that no request removes, provided the tasks ahead
  of it have non-empty appNames: before it, it retires the tasks ahead of it that are
  still pending when their turn comes, in their order.
\<close>

lemma loop_retires_pending:
  assumes "no_raise w" "\<forall>t. Remove a \<notin> set (arrivals w t)"
  shows "queueState s = Running \<Longrightarrow> queue_distinct s \<Longrightarrow> a \<in> set (names (get_queue s)) \<Longrightarrow>
     [] \<notin> set (takeWhile (\<lambda>c. c \<noteq> a) (names (get_queue s))) \<Longrightarrow>
     length (takeWhile (\<lambda>c. c \<noteq> a) (names (get_queue s))) < n \<Longrightarrow>
     \<exists>pre post. retired (trace (state_of (loop n w (getFirstQueueElement s) s))) =
         retired (trace s) @ pre @ a # post \<and>
       subseq pre (takeWhile (\<lambda>c. c \<noteq> a) (names (get_queue s))) \<and>
       (\<forall>c\<in>set (takeWhile (\<lambda>c. c \<noteq> a) (names (get_queue s))).
          c \<in> set pre \<or> (\<exists>t. Remove c \<in> set (arrivals w t)))"
proof (induction n arbitrary: s)
  case 0
  then show ?case by simp
next
  case (Suc n)
  let ?T = "takeWhile (\<lambda>c. c \<noteq> a)"
  from Suc.prems(3) obtain el rest where q: "get_queue s = el # rest"
    by (cases "get_queue s") auto
  then have hd: "getFirstQueueElement s = Some el"
    by (simp add: getFirstQueueElement_def)
  show ?case
  proof (cases "name_of el = a")
    case True
    with q have T0: "?T (names (get_queue s)) = []"
      by simp
    from iteration_head_retired [OF assms(1) Suc.prems(1) hd] obtain s1 where
      i: "iteration w el s = Ok s1"
      and r1: "retired (trace s1) = retired (trace s) @ [name_of el]"
      by blast
    from i hd have l: "loop (Suc n) w (getFirstQueueElement s) s = loop n w (getFirstQueueElement s1) s1"
      by simp
    from retired_prefix [OF prefix_trace_loop [of s1 n w "getFirstQueueElement s1"]]
    obtain post where "retired (trace (state_of (loop n w (getFirstQueueElement s1) s1))) =
        retired (trace s1) @ post"
      by blast
    with l r1 True have "retired (trace (state_of (loop (Suc n) w (getFirstQueueElement s) s))) =
        retired (trace s) @ [] @ a # post"
      by simp
    moreover have "subseq [] (?T (names (get_queue s)))"
      by simp
    moreover have "\<forall>c\<in>set (?T (names (get_queue s))). c \<in> set [] \<or> (\<exists>t. Remove c \<in> set (arrivals w t))"
      by (simp add: T0)
    ultimately show ?thesis
      by blast
  next
    case False
    with q have T0: "?T (names (get_queue s)) = name_of el # ?T (names rest)"
      by simp
    from False q Suc.prems(3) have ar: "a \<in> set (names rest)"
      by auto
    from T0 Suc.prems(4) have ne: "name_of el \<noteq> []" and ner: "[] \<notin> set (?T (names rest))"
      by auto
    from T0 Suc.prems(5) have len: "length (?T (names rest)) < n"
      by simp
    from iteration_ahead [OF assms(1) Suc.prems(1,2) q ar ne assms(2)] obtain s1 where
      i: "iteration w el s = Ok s1" and run1: "queueState s1 = Running"
      and qd1: "queue_distinct s1"
      and r1: "retired (trace s1) = retired (trace s) @ [name_of el]"
      and a1: "a \<in> set (names (get_queue s1))"
      and sub1: "subseq (?T (names (get_queue s1))) (?T (names rest))"
      and drop1: "\<forall>c\<in>set (?T (names rest)).
         c \<in> set (?T (names (get_queue s1))) \<or> (\<exists>t. Remove c \<in> set (arrivals w t))"
      by blast
    from list_emb_set [OF sub1, of "[]"] ner have ne1: "[] \<notin> set (?T (names (get_queue s1)))"
      by auto
    from list_emb_length [OF sub1] len have len1: "length (?T (names (get_queue s1))) < n"
      by simp
    from Suc.IH [OF run1 qd1 a1 ne1 len1] obtain pre post where
      ih1: "retired (trace (state_of (loop n w (getFirstQueueElement s1) s1))) =
         retired (trace s1) @ pre @ a # post"
      and ih2: "subseq pre (?T (names (get_queue s1)))"
      and ih3: "\<forall>c\<in>set (?T (names (get_queue s1))).
          c \<in> set pre \<or> (\<exists>t. Remove c \<in> set (arrivals w t))"
      by blast
    from i hd have l: "loop (Suc n) w (getFirstQueueElement s) s = loop n w (getFirstQueueElement s1) s1"
      by simp
    from l ih1 r1 have 1: "retired (trace (state_of (loop (Suc n) w (getFirstQueueElement s) s))) =
        retired (trace s) @ (name_of el # pre) @ a # post"
      by simp
    from subseq_order.trans [OF ih2 sub1] have 2: "subseq (name_of el # pre) (?T (names (get_queue s)))"
      by (simp add: T0)
    have 3: "\<forall>c\<in>set (?T (names (get_queue s))).
          c \<in> set (name_of el # pre) \<or> (\<exists>t. Remove c \<in> set (arrivals w t))"
    proof
      fix c
      assume "c \<in> set (?T (names (get_queue s)))"
      with T0 have "c = name_of el \<or> c \<in> set (?T (names rest))"
        by simp
      with drop1 ih3 show "c \<in> set (name_of el # pre) \<or> (\<exists>t. Remove c \<in> set (arrivals w t))"
        by auto
    qed
    from 1 2 3 show ?thesis
      by blast
  qed
qed

end
